theory Spec2Isabelle
  imports Main "HOL-Library.Sublist"
begin

section \<open>Go values\<close>

text \<open>
  A Go string is a sequence of bytes, modelled as \<open>string\<close> (a list of 8-bit \<open>char\<close>s).
  A run-time panic is a value: every function of the program that can panic returns
  \<open>panic + 'a\<close>, with \<open>Inl\<close> for the panic. A Go \<open>error\<close> is its message, and
  \<open>None\<close> is the nil error.
\<close>

datatype panic = SliceBoundsOutOfRange | IndexOutOfRange

type_synonym goError = string

text \<open>The slice expression \<open>s[lo:hi]\<close> on a string; Go panics unless \<open>0 \<le> lo \<le> hi \<le> len(s)\<close>.\<close>

definition slice :: "string \<Rightarrow> int \<Rightarrow> int \<Rightarrow> panic + string" where
  "slice s lo hi =
     (if 0 \<le> lo \<and> lo \<le> hi \<and> hi \<le> int (length s)
      then Inr (take (nat hi - nat lo) (drop (nat lo) s))
      else Inl SliceBoundsOutOfRange)"

text \<open>The index expression \<open>xs[i]\<close> on a slice; Go panics when \<open>i\<close> is out of range.\<close>

definition index :: "'a list \<Rightarrow> nat \<Rightarrow> panic + 'a" where
  "index xs i = (if i < length xs then Inr (xs ! i) else Inl IndexOutOfRange)"

section \<open>The functions of package strings that the program calls\<close>

definition HasPrefix :: "string \<Rightarrow> string \<Rightarrow> bool" where
  "HasPrefix s pre = (take (length pre) s = pre)"

definition HasSuffix :: "string \<Rightarrow> string \<Rightarrow> bool" where
  "HasSuffix s suf = (length suf \<le> length s \<and> drop (length s - length suf) s = suf)"

definition TrimPrefix :: "string \<Rightarrow> string \<Rightarrow> string" where
  "TrimPrefix s pre = (if HasPrefix s pre then drop (length pre) s else s)"

definition TrimSuffix :: "string \<Rightarrow> string \<Rightarrow> string" where
  "TrimSuffix s suf = (if HasSuffix s suf then take (length s - length suf) s else s)"

text \<open>
  \<open>strings.Index(s, substr)\<close>: the byte offset of the first occurrence, \<open>-1\<close> when there
  is none. \<open>indexFrom\<close> carries the offset of the position it is looking at.
\<close>

fun indexFrom :: "nat \<Rightarrow> string \<Rightarrow> string \<Rightarrow> int" where
  "indexFrom n [] substr = (if substr = [] then int n else - 1)"
| "indexFrom n (c # cs) substr =
     (if HasPrefix (c # cs) substr then int n else indexFrom (Suc n) cs substr)"

definition Index :: "string \<Rightarrow> string \<Rightarrow> int" where
  "Index s substr = indexFrom 0 s substr"

definition Contains :: "string \<Rightarrow> string \<Rightarrow> bool" where
  "Contains s substr = (0 \<le> Index s substr)"

text \<open>
  \<open>strings.Split(s, sep)\<close> for a separator that is not empty (every call of the program
  passes a literal one): cut at the leftmost occurrence, go on behind it, and end with the
  rest. \<open>splitFrom\<close> holds in \<open>cur\<close> the bytes read since the last cut.
\<close>

function splitFrom :: "string \<Rightarrow> string \<Rightarrow> string \<Rightarrow> string list" where
  "splitFrom sep cur [] = [cur]"
| "splitFrom sep cur (c # cs) =
     (if HasPrefix (c # cs) sep
      then cur # splitFrom sep [] (drop (length sep - 1) cs)
      else splitFrom sep (cur @ [c]) cs)"
  by pat_completeness auto
termination
  by (relation "measure (\<lambda>(sep, cur, s). length s)") auto

definition Split :: "string \<Rightarrow> string \<Rightarrow> string list" where
  "Split s sep = splitFrom sep [] s"

text \<open>
  White space. \<open>TrimSpace\<close> and \<open>Fields\<close> decode UTF-8 and ask \<open>unicode.IsSpace\<close>.
  The white-space runes are the six ASCII ones and U+0085, U+00A0, U+1680,
  U+2000 to U+200A, U+2028, U+2029, U+202F, U+205F and U+3000; \<open>unicodeSpaces\<close> lists
  the UTF-8 encodings of those beyond ASCII. Each encoding begins with a byte that is no
  continuation byte, so an encoding occurs in a string only where a rune begins, and
  matching the bytes is the same as decoding the rune.
\<close>

definition asciiSpace :: "char \<Rightarrow> bool" where
  "asciiSpace c = (c = CHR 0x09 \<or> c = CHR 0x0A \<or> c = CHR 0x0B \<or> c = CHR 0x0C
                    \<or> c = CHR 0x0D \<or> c = CHR 0x20)"

definition unicodeSpaces :: "string list" where
  "unicodeSpaces =
     [[CHR 0xC2, CHR 0x85], [CHR 0xC2, CHR 0xA0], [CHR 0xE1, CHR 0x9A, CHR 0x80],
      [CHR 0xE2, CHR 0x80, CHR 0x80], [CHR 0xE2, CHR 0x80, CHR 0x81],
      [CHR 0xE2, CHR 0x80, CHR 0x82], [CHR 0xE2, CHR 0x80, CHR 0x83],
      [CHR 0xE2, CHR 0x80, CHR 0x84], [CHR 0xE2, CHR 0x80, CHR 0x85],
      [CHR 0xE2, CHR 0x80, CHR 0x86], [CHR 0xE2, CHR 0x80, CHR 0x87],
      [CHR 0xE2, CHR 0x80, CHR 0x88], [CHR 0xE2, CHR 0x80, CHR 0x89],
      [CHR 0xE2, CHR 0x80, CHR 0x8A], [CHR 0xE2, CHR 0x80, CHR 0xA8],
      [CHR 0xE2, CHR 0x80, CHR 0xA9], [CHR 0xE2, CHR 0x80, CHR 0xAF],
      [CHR 0xE2, CHR 0x81, CHR 0x9F], [CHR 0xE3, CHR 0x80, CHR 0x80]]"

text \<open>The width in bytes of the white-space rune a string begins with; 0 when it begins with none.\<close>

fun spaceWidth :: "string \<Rightarrow> nat" where
  "spaceWidth [] = 0"
| "spaceWidth (c # cs) =
     (if asciiSpace c then 1
      else (case find (\<lambda>enc. HasPrefix (c # cs) enc) unicodeSpaces of
              None \<Rightarrow> 0 | Some enc \<Rightarrow> length enc))"

text \<open>The same for the rune a string ends with.\<close>

definition spaceWidthLast :: "string \<Rightarrow> nat" where
  "spaceWidthLast s =
     (if s = [] then 0
      else if asciiSpace (last s) then 1
      else (case find (\<lambda>enc. HasSuffix s enc) unicodeSpaces of
              None \<Rightarrow> 0 | Some enc \<Rightarrow> length enc))"

fun trimLeftFrom :: "nat \<Rightarrow> string \<Rightarrow> string" where
  "trimLeftFrom skip [] = []"
| "trimLeftFrom skip (c # cs) =
     (if 0 < skip then trimLeftFrom (skip - 1) cs
      else if 0 < spaceWidth (c # cs) then trimLeftFrom (spaceWidth (c # cs) - 1) cs
      else c # cs)"

function trimRightSpace :: "string \<Rightarrow> string" where
  "trimRightSpace s =
     (if spaceWidthLast s = 0 then s else trimRightSpace (take (length s - spaceWidthLast s) s))"
  by pat_completeness auto
termination
proof (relation "measure length")
  show "wf (measure length)" by simp
next
  fix s :: string
  assume w: "spaceWidthLast s \<noteq> 0"
  then have "s \<noteq> []" by (auto simp: spaceWidthLast_def)
  with w show "(take (length s - spaceWidthLast s) s, s) \<in> measure length" by simp
qed

definition TrimSpace :: "string \<Rightarrow> string" where
  "TrimSpace s = trimRightSpace (trimLeftFrom 0 s)"

text \<open>
  \<open>strings.Fields(s)\<close>, here \<open>Fields_strings\<close> (the struct \<open>Entity\<close> has a field
  \<open>Fields\<close>): the maximal runs of bytes between white-space runes, in order.
  \<open>fieldsFrom\<close> holds in \<open>cur\<close> the field being read and in \<open>skip\<close> the number of
  bytes of the current white-space rune still to be passed over.
\<close>

fun fieldsFrom :: "nat \<Rightarrow> string \<Rightarrow> string \<Rightarrow> string list" where
  "fieldsFrom skip cur [] = (if cur = [] then [] else [cur])"
| "fieldsFrom skip cur (c # cs) =
     (if 0 < skip then fieldsFrom (skip - 1) cur cs
      else if 0 < spaceWidth (c # cs)
      then (if cur = [] then [] else [cur]) @ fieldsFrom (spaceWidth (c # cs) - 1) [] cs
      else fieldsFrom 0 (cur @ [c]) cs)"

definition Fields_strings :: "string \<Rightarrow> string list" where
  "Fields_strings s = fieldsFrom 0 [] s"

text \<open>
  \<open>strings.Trim(s, cutset)\<close> for a cutset of ASCII bytes (the program passes one double
  quote): all leading and all trailing bytes of the cutset are removed.
\<close>

definition Trim :: "string \<Rightarrow> string \<Rightarrow> string" where
  "Trim s cutset =
     dropWhile (\<lambda>c. c \<in> set cutset) (rev (dropWhile (\<lambda>c. c \<in> set cutset) (rev s)))"

text \<open>
  \<open>strings.ToLower(s)\<close>: on a string of ASCII bytes the letters A to Z are moved to a to z
  (Go adds \<open>'a' - 'A'\<close>, which is 32; on a byte from 65 to 90 that sets the bit of value 32).
  On any other string Go maps every rune through the Unicode case tables, which are not
  part of the program: that branch is the parameter \<open>uni\<close>.
\<close>

definition lowerASCII :: "char \<Rightarrow> char" where
  "lowerASCII c =
     (if 65 \<le> (of_char c :: nat) \<and> (of_char c :: nat) \<le> 90
      then (case c of Char b0 b1 b2 b3 b4 b5 b6 b7 \<Rightarrow> Char b0 b1 b2 b3 b4 True b6 b7)
      else c)"

definition isASCII :: "string \<Rightarrow> bool" where
  "isASCII s = list_all (\<lambda>c. (of_char c :: nat) < 128) s"

definition ToLower :: "(string \<Rightarrow> string) \<Rightarrow> string \<Rightarrow> string" where
  "ToLower uni s = (if isASCII s then map lowerASCII s else uni s)"

section \<open>The scanner\<close>

text \<open>
  \<open>bufio.Scanner\<close> with its default split function \<open>ScanLines\<close>: the text is cut at
  every line feed, the text behind the last line feed is a line of its own unless it is
  empty, and one trailing carriage return is dropped from each line. The scanner's
  buffer grows to \<open>MaxScanTokenSize\<close> bytes and no further: at a line of that many bytes
  or more (before its line feed) \<open>Scan\<close> returns false, and the loop of the parser ends
  as it does at the end of the text. \<open>scanFrom\<close> holds in \<open>cur\<close> the bytes of the line
  being read; \<open>scanLines\<close> is the list of the lines that the calls of \<open>Scan\<close> deliver.
\<close>

definition MaxScanTokenSize :: nat where
  "MaxScanTokenSize = 64 * 1024"

definition dropCR :: "string \<Rightarrow> string" where
  "dropCR data = (if data \<noteq> [] \<and> last data = CHR 0x0D then butlast data else data)"

fun scanFrom :: "string \<Rightarrow> string \<Rightarrow> string list" where
  "scanFrom cur [] =
     (if cur = [] \<or> MaxScanTokenSize \<le> length cur then [] else [dropCR cur])"
| "scanFrom cur (c # cs) =
     (if c = CHR 0x0A
      then (if MaxScanTokenSize \<le> length cur then [] else dropCR cur # scanFrom [] cs)
      else scanFrom (cur @ [c]) cs)"

definition scanLines :: "string \<Rightarrow> string list" where
  "scanLines content = scanFrom [] content"

section \<open>The schema model\<close>

text \<open>
  The structs of package parser. A nil map and an empty map read alike, as do a nil and
  an empty slice: they are \<open>Map.empty\<close> and \<open>[]\<close>.
\<close>

record Field =
  Name :: string
  Type :: string
  IsMany :: bool
  Through :: string
  IsAction :: bool
  ActionType :: string
  ActionArgs :: "string \<rightharpoonup> string"
  RequiredParams :: "string list"
  FunctionName :: string
  FunctionArgs :: "string list"

record Entity =
  Name :: string
  Fields :: "Field list"

record StateQL =
  Entities :: "Entity list"

text \<open>The zero value \<open>Field{}\<close>.\<close>

definition zeroField :: Field where
  "zeroField =
     \<lparr>Field.Name = [], Type = [], IsMany = False, Through = [], IsAction = False,
      ActionType = [], ActionArgs = Map.empty, RequiredParams = [], FunctionName = [],
      FunctionArgs = []\<rparr>"

section \<open>The field grammar parser\<close>

text \<open>
  \<open>parseActionArgs\<close>: the loop over \<open>parts\<close>. \<open>actionArgsLoop\<close> takes the parts from
  index \<open>i\<close> on, the index \<open>i\<close>, the map \<open>result\<close> and the slice \<open>requiredParams\<close>.
\<close>

fun actionArgsLoop ::
  "string list \<Rightarrow> nat \<Rightarrow> (string \<rightharpoonup> string) \<Rightarrow> string list
     \<Rightarrow> (string \<rightharpoonup> string) \<times> string list" where
  "actionArgsLoop [] i result requiredParams = (result, requiredParams)"
| "actionArgsLoop (p # ps) i result requiredParams =
     (let part = TrimSpace p in
      if HasPrefix part '':''
      then actionArgsLoop ps (i + 1) result (requiredParams @ [TrimPrefix part '':''])
      else if Contains part ''=''
      then (let kv = Split part ''='' in
            if length kv = 2
            then actionArgsLoop ps (i + 1)
                   (result(TrimSpace (kv ! 0) \<mapsto> TrimSpace (kv ! 1))) requiredParams
            else actionArgsLoop ps (i + 1) result requiredParams)
      else if i = 0 then actionArgsLoop ps (i + 1) (result(''arg1'' \<mapsto> part)) requiredParams
      else if i = 1 then actionArgsLoop ps (i + 1) (result(''arg2'' \<mapsto> part)) requiredParams
      else actionArgsLoop ps (i + 1) result requiredParams)"

definition parseActionArgs :: "string \<Rightarrow> (string \<rightharpoonup> string) \<times> string list" where
  "parseActionArgs args = actionArgsLoop (Fields_strings args) 0 Map.empty []"

definition quote :: string where
  "quote = [CHR 0x22]"

definition unquote :: "string \<Rightarrow> string" where
  "unquote p =
     (let part = TrimSpace p in
      if HasPrefix part quote \<and> HasSuffix part quote then Trim part quote else part)"

definition parseFunctionArgs :: "string \<Rightarrow> string list" where
  "parseFunctionArgs args = map unquote (Fields_strings args)"

text \<open>
  \<open>parseField\<close>. The two slice expressions of the action branch and of the function
  branch can panic; so can, as far as the types go, the index expressions \<open>parts[0]\<close> and
  \<open>parts[1]\<close> of the function branch, which no length test guards. The index expressions
  behind a test \<open>len(...) == 2\<close> are written with \<open>!\<close>.
\<close>

definition parseField :: "string \<Rightarrow> panic + Field" where
  "parseField line0 =
     (let line = TrimSpace (TrimPrefix line0 ''- '');
          parts = Split line '' is ''
      in if length parts \<noteq> 2 then Inr zeroField
      else
        let name = TrimSpace (parts ! 0);
            typeDef = TrimSpace (parts ! 1);
            field = zeroField\<lparr>Field.Name := name\<rparr>
        in
        if HasPrefix typeDef ''action'' then
          (let field = field\<lparr>IsAction := True\<rparr>;
               actionParts = Split typeDef '' thru ''
           in if length actionParts = 2 then
                (let field = field\<lparr>ActionType := TrimSpace (actionParts ! 1)\<rparr>
                 in if Contains (ActionType field) ''('' then
                      (case slice (ActionType field) 0 (Index (ActionType field) ''('') of
                         Inl p \<Rightarrow> Inl p
                       | Inr actionName \<Rightarrow>
                          (case slice (ActionType field) (Index (ActionType field) ''('' + 1)
                                  (Index (ActionType field) '')'') of
                             Inl p \<Rightarrow> Inl p
                           | Inr args \<Rightarrow>
                               Inr (field\<lparr>ActionType := actionName,
                                           ActionArgs := fst (parseActionArgs args),
                                           RequiredParams := snd (parseActionArgs args)\<rparr>)))
                    else Inr field)
              else Inr field)
        else if HasPrefix typeDef ''many'' then
          (let field = field\<lparr>IsMany := True\<rparr>;
               throughParts = Split typeDef '' thru ''
           in if length throughParts = 2
              then Inr (field\<lparr>Through := TrimSpace (throughParts ! 1)\<rparr>)
              else Inr field)
        else if Contains typeDef '' thru '' then
          (let parts = Split typeDef '' thru '' in
           case index parts 0 of
             Inl p \<Rightarrow> Inl p
           | Inr part0 \<Rightarrow>
              (case index parts 1 of
                 Inl p \<Rightarrow> Inl p
               | Inr part1 \<Rightarrow>
                  (let field = field\<lparr>Type := TrimSpace part0\<rparr>;
                       functionDef = TrimSpace part1
                   in if Contains functionDef ''('' then
                        (case slice functionDef 0 (Index functionDef ''('') of
                           Inl p \<Rightarrow> Inl p
                         | Inr functionName \<Rightarrow>
                            (case slice functionDef (Index functionDef ''('' + 1)
                                    (Index functionDef '')'') of
                               Inl p \<Rightarrow> Inl p
                             | Inr args \<Rightarrow>
                                 Inr (field\<lparr>FunctionName := functionName,
                                             FunctionArgs := parseFunctionArgs args\<rparr>)))
                      else Inr field)))
        else Inr (field\<lparr>Type := typeDef\<rparr>))"

section \<open>The entity block builder\<close>

text \<open>
  The state of the loop of \<open>ParseStateQL\<close>: the model \<open>stateql\<close> and the pointer
  \<open>currentEntity\<close>, which is nil or points at an element of \<open>stateql.Entities\<close> and is
  modelled as the index of that element. The pointer is set anew right behind every
  \<open>append\<close> to \<open>stateql.Entities\<close>, so it never points into a backing array that the
  slice has left.
\<close>

record parserState =
  stateql :: StateQL
  currentEntity :: "nat option"

definition initState :: parserState where
  "initState = \<lparr>stateql = \<lparr>Entities = []\<rparr>, currentEntity = None\<rparr>"

text \<open>One turn of the loop, on the text \<open>scanner.Text()\<close> of one line.\<close>

definition scanStep :: "string \<Rightarrow> parserState \<Rightarrow> panic + parserState" where
  "scanStep text st =
     (let line = TrimSpace text in
      if line = [] then Inr st
      else if \<not> HasPrefix line ''-'' then
        (let entityName = TrimSuffix line '':'';
             entity = \<lparr>Entity.Name = entityName, Fields = []\<rparr>;
             entities = Entities (stateql st) @ [entity]
         in Inr \<lparr>stateql = \<lparr>Entities = entities\<rparr>,
                 currentEntity = Some (length entities - 1)\<rparr>)
      else
        (case currentEntity st of
           None \<Rightarrow> Inr st
         | Some i \<Rightarrow>
            (case parseField line of
               Inl p \<Rightarrow> Inl p
             | Inr field \<Rightarrow>
                (let entities = Entities (stateql st);
                     cur = entities ! i
                 in Inr (st\<lparr>stateql :=
                           \<lparr>Entities = entities[i := cur\<lparr>Fields := Fields cur @ [field]\<rparr>]\<rparr>\<rparr>)))))"

fun scanLoop :: "string list \<Rightarrow> parserState \<Rightarrow> panic + parserState" where
  "scanLoop [] st = Inr st"
| "scanLoop (text # rest) st =
     (case scanStep text st of Inl p \<Rightarrow> Inl p | Inr st' \<Rightarrow> scanLoop rest st')"

definition ParseStateQL :: "string \<Rightarrow> panic + StateQL \<times> goError option" where
  "ParseStateQL content =
     (case scanLoop (scanLines content) initState of
        Inl p \<Rightarrow> Inl p
      | Inr st \<Rightarrow> Inr (stateql st, None))"

section \<open>The relational schema compiler\<close>

text \<open>
  \<open>mapTypeToPostgres\<close>: the switch on the lowercased type name. Every function from here
  on takes \<open>uni\<close>, the branch of \<open>strings.ToLower\<close> beyond ASCII.
\<close>

definition mapTypeToPostgres :: "(string \<Rightarrow> string) \<Rightarrow> string \<Rightarrow> string" where
  "mapTypeToPostgres uni stateqlType =
     (let t = ToLower uni stateqlType in
      if t = ''text'' then ''TEXT''
      else if t = ''number'' then ''NUMERIC''
      else if t = ''switch'' then ''BOOLEAN''
      else if t = ''date'' then ''DATE''
      else if t = ''timestamp'' then ''TIMESTAMP''
      else if t = ''seconds'' then ''INTEGER''
      else ''TEXT'')"

text \<open>
  The store. \<open>sg.db.Exec(sql).Error\<close> runs one statement on the database and gives back
  nil or an error; the database is the state \<open>'db\<close> that the call may change, and the
  executor is a parameter of the compiler.
\<close>

type_synonym 'db executor = "string \<Rightarrow> 'db \<Rightarrow> goError option \<times> 'db"

text \<open>The loop of \<open>createTable\<close> over the fields, which appends the columns to \<open>createSQL\<close>.\<close>

fun addColumns :: "(string \<Rightarrow> string) \<Rightarrow> Field list \<Rightarrow> string \<Rightarrow> string" where
  "addColumns uni [] createSQL = createSQL"
| "addColumns uni (field # rest) createSQL =
     (if \<not> IsMany field \<and> \<not> IsAction field
      then (let columnType = mapTypeToPostgres uni (Type field) in
            addColumns uni rest
              (createSQL @ ToLower uni (Field.Name field) @ '' '' @ columnType @ '',''))
      else addColumns uni rest createSQL)"

definition createTableSQL :: "(string \<Rightarrow> string) \<Rightarrow> Entity \<Rightarrow> string" where
  "createTableSQL uni entity =
     (let tableName = ToLower uni (Entity.Name entity);
          createSQL = ''CREATE TABLE IF NOT EXISTS '' @ tableName @ '' ('';
          createSQL = createSQL @ ''id SERIAL PRIMARY KEY,'';
          createSQL = addColumns uni (Fields entity) createSQL
      in TrimSuffix createSQL '','' @ '')'')"

definition createTable ::
  "(string \<Rightarrow> string) \<Rightarrow> 'db executor \<Rightarrow> Entity \<Rightarrow> 'db \<Rightarrow> goError option \<times> 'db" where
  "createTable uni exec entity db = exec (createTableSQL uni entity) db"

text \<open>
  The raw string literal of \<open>createRelationships\<close> keeps its line feeds and tabs:
  \<open>indent n\<close> is a line feed and \<open>n\<close> tabs.
\<close>

definition indent :: "nat \<Rightarrow> string" where
  "indent n = CHR 0x0A # replicate n (CHR 0x09)"

definition junctionSQL :: "(string \<Rightarrow> string) \<Rightarrow> Entity \<Rightarrow> Field \<Rightarrow> string" where
  "junctionSQL uni entity field =
     (let tableName = ToLower uni (Entity.Name entity) @ ''_'' @ ToLower uni (Field.Name field)
      in indent 4 @ ''CREATE TABLE IF NOT EXISTS '' @ tableName @ '' (''
         @ indent 5 @ ToLower uni (Entity.Name entity) @ ''_id INTEGER REFERENCES ''
             @ ToLower uni (Entity.Name entity) @ ''(id),''
         @ indent 5 @ ToLower uni (Through field) @ ''_id INTEGER REFERENCES ''
             @ ToLower uni (Through field) @ ''(id),''
         @ indent 5 @ ''PRIMARY KEY ('' @ ToLower uni (Entity.Name entity) @ ''_id, ''
             @ ToLower uni (Through field) @ ''_id)''
         @ indent 4 @ '')'')"

fun relationshipsLoop ::
  "(string \<Rightarrow> string) \<Rightarrow> 'db executor \<Rightarrow> Entity \<Rightarrow> Field list \<Rightarrow> 'db \<Rightarrow> goError option \<times> 'db"
  where
  "relationshipsLoop uni exec entity [] db = (None, db)"
| "relationshipsLoop uni exec entity (field # rest) db =
     (if IsMany field
      then (case exec (junctionSQL uni entity field) db of
              (Some err, db') \<Rightarrow> (Some err, db')
            | (None, db') \<Rightarrow> relationshipsLoop uni exec entity rest db')
      else relationshipsLoop uni exec entity rest db)"

definition createRelationships ::
  "(string \<Rightarrow> string) \<Rightarrow> 'db executor \<Rightarrow> Entity \<Rightarrow> 'db \<Rightarrow> goError option \<times> 'db" where
  "createRelationships uni exec entity db = relationshipsLoop uni exec entity (Fields entity) db"

text \<open>The two loops of \<open>GenerateSchema\<close> over the entities.\<close>

fun tablesLoop ::
  "(string \<Rightarrow> string) \<Rightarrow> 'db executor \<Rightarrow> Entity list \<Rightarrow> 'db \<Rightarrow> goError option \<times> 'db" where
  "tablesLoop uni exec [] db = (None, db)"
| "tablesLoop uni exec (entity # entities) db =
     (case createTable uni exec entity db of
        (Some err, db') \<Rightarrow> (Some err, db')
      | (None, db') \<Rightarrow> tablesLoop uni exec entities db')"

fun junctionsLoop ::
  "(string \<Rightarrow> string) \<Rightarrow> 'db executor \<Rightarrow> Entity list \<Rightarrow> 'db \<Rightarrow> goError option \<times> 'db" where
  "junctionsLoop uni exec [] db = (None, db)"
| "junctionsLoop uni exec (entity # entities) db =
     (case createRelationships uni exec entity db of
        (Some err, db') \<Rightarrow> (Some err, db')
      | (None, db') \<Rightarrow> junctionsLoop uni exec entities db')"

definition GenerateSchema ::
  "(string \<Rightarrow> string) \<Rightarrow> 'db executor \<Rightarrow> StateQL \<Rightarrow> 'db \<Rightarrow> goError option \<times> 'db" where
  "GenerateSchema uni exec model db =
     (case tablesLoop uni exec (Entities model) db of
        (Some err, db') \<Rightarrow> (Some err, db')
      | (None, db') \<Rightarrow> junctionsLoop uni exec (Entities model) db')"

section \<open>Notions used to state the properties\<close>

text \<open>
  The statements of a model in the order of the two passes: one table statement for each
  entity, then one junction statement for each many field of each entity.
\<close>

definition statements :: "(string \<Rightarrow> string) \<Rightarrow> StateQL \<Rightarrow> string list" where
  "statements uni model =
     map (createTableSQL uni) (Entities model)
     @ concat (map (\<lambda>entity. map (junctionSQL uni entity) (filter IsMany (Fields entity)))
                 (Entities model))"

text \<open>
  Running an executor over a list of statements in order, up to the first one that fails:
  the result is that statement's error and the database as that call left it, or nil and
  the database behind the last statement.
\<close>

fun runSeq :: "'db executor \<Rightarrow> string list \<Rightarrow> 'db \<Rightarrow> goError option \<times> 'db" where
  "runSeq exec [] db = (None, db)"
| "runSeq exec (stmt # stmts) db =
     (case exec stmt db of
        (Some err, db') \<Rightarrow> (Some err, db')
      | (None, db') \<Rightarrow> runSeq exec stmts db')"

text \<open>An executor that also keeps the list of the statements it was given.\<close>

definition traced :: "'db executor \<Rightarrow> ('db \<times> string list) executor" where
  "traced exec stmt st =
     (case exec stmt (fst st) of (err, db') \<Rightarrow> (err, (db', snd st @ [stmt])))"

text \<open>
  A store for the examples: the list of the statements it has run; it rejects the
  statements that \<open>bad\<close> holds for, with the message \<open>rejected\<close>.
\<close>

definition listStore :: "(string \<Rightarrow> bool) \<Rightarrow> string list executor" where
  "listStore bad stmt db = (if bad stmt then (Some ''rejected'', db) else (None, db @ [stmt]))"

text \<open>The lines that the loop of the parser does not skip, and the two kinds of them.\<close>

definition isBlank :: "string \<Rightarrow> bool" where
  "isBlank text = (TrimSpace text = [])"

definition isHeader :: "string \<Rightarrow> bool" where
  "isHeader text = (TrimSpace text \<noteq> [] \<and> \<not> HasPrefix (TrimSpace text) ''-'')"

definition isFieldLine :: "string \<Rightarrow> bool" where
  "isFieldLine text = HasPrefix (TrimSpace text) ''-''"

definition headerName :: "string \<Rightarrow> string" where
  "headerName text = TrimSuffix (TrimSpace text) '':''"

text \<open>
  \<open>parses\<close>: \<open>parseField\<close> does not panic on the line; \<open>fieldOf\<close> is the field it
  returns then.
\<close>

definition fieldOf :: "string \<Rightarrow> Field" where
  "fieldOf text = (case parseField (TrimSpace text) of Inl p \<Rightarrow> zeroField | Inr field \<Rightarrow> field)"

definition parses :: "string \<Rightarrow> bool" where
  "parses text = (case parseField (TrimSpace text) of Inl p \<Rightarrow> False | Inr field \<Rightarrow> True)"

text \<open>
  The column that \<open>createTable\<close> writes for a field, and the fields it writes one for.
\<close>

definition columnOf :: "(string \<Rightarrow> string) \<Rightarrow> Field \<Rightarrow> string" where
  "columnOf uni field =
     ToLower uni (Field.Name field) @ '' '' @ mapTypeToPostgres uni (Type field)"

definition hasColumn :: "Field \<Rightarrow> bool" where
  "hasColumn field = (\<not> IsMany field \<and> \<not> IsAction field)"

text \<open>The kinds of the tokens of an action's argument text.\<close>

definition isRequired :: "string \<Rightarrow> bool" where
  "isRequired part = HasPrefix part '':''"

definition isNamed :: "string \<Rightarrow> bool" where
  "isNamed part = (\<not> HasPrefix part '':'' \<and> Contains part ''='')"

definition isPositional :: "string \<Rightarrow> bool" where
  "isPositional part = (\<not> HasPrefix part '':'' \<and> \<not> Contains part ''='')"

definition namedKey :: "string \<Rightarrow> string" where
  "namedKey part = TrimSpace (Split part ''='' ! 0)"

text \<open>
  The tokens of an action's argument text as the loop of \<open>parseActionArgs\<close> sees them, and
  the tokens \<open>key=value\<close> that the loop stores under \<open>key\<close>, with the value stored.
\<close>

definition tokens :: "string \<Rightarrow> string list" where
  "tokens args = map TrimSpace (Fields_strings args)"

definition writesKey :: "string \<Rightarrow> string \<Rightarrow> bool" where
  "writesKey key part = (isNamed part \<and> length (Split part ''='') = 2 \<and> namedKey part = key)"

definition namedValue :: "string \<Rightarrow> string" where
  "namedValue part = TrimSpace (Split part ''='' ! 1)"

text \<open>Stripping one layer of quotes, in the words of the specification.\<close>

definition stripOneLayer :: "string \<Rightarrow> string" where
  "stripOneLayer part = butlast (tl part)"

text \<open>
  The pointer of the parser's loop is nil while the model has no entity, and points at the
  last entity from then on.
\<close>

definition ptr_ok :: "parserState \<Rightarrow> bool" where
  "ptr_ok st = (currentEntity st =
      (if Entities (stateql st) = [] then None else Some (length (Entities (stateql st)) - 1)))"

section \<open>Evaluating the string functions\<close>

lemmas str_defs = HasPrefix_def HasSuffix_def TrimPrefix_def TrimSuffix_def Index_def Contains_def
  Split_def asciiSpace_def unicodeSpaces_def spaceWidthLast_def TrimSpace_def Fields_strings_def
  Trim_def lowerASCII_def isASCII_def ToLower_def slice_def index_def

section \<open>The statements of the compiler\<close>

lemma TrimSuffix_append: "TrimSuffix (xs @ suf) suf = xs"
  by (simp add: TrimSuffix_def HasSuffix_def)

lemma addColumns_eq:
  "addColumns uni fs acc = acc @ concat (map (\<lambda>f. columnOf uni f @ '','') (filter hasColumn fs))"
  by (induction fs arbitrary: acc) (simp_all add: columnOf_def hasColumn_def Let_def)

lemma comma_shift:
  "'','' @ concat (map (\<lambda>f. c f @ '','') xs) = concat (map (\<lambda>f. '','' @ c f) xs) @ '',''"
  by (induction xs) simp_all

lemma createTableSQL_shape:
  "createTableSQL uni entity =
     ''CREATE TABLE IF NOT EXISTS '' @ ToLower uni (Entity.Name entity) @ '' (''
     @ ''id SERIAL PRIMARY KEY''
     @ concat (map (\<lambda>field. '','' @ columnOf uni field) (filter hasColumn (Fields entity)))
     @ '')''"
proof -
  let ?P = "''CREATE TABLE IF NOT EXISTS '' @ ToLower uni (Entity.Name entity) @ '' ('' @ ''id SERIAL PRIMARY KEY''"
  let ?K = "filter hasColumn (Fields entity)"
  have "addColumns uni (Fields entity) (?P @ '','')
        = ?P @ ('','' @ concat (map (\<lambda>f. columnOf uni f @ '','') ?K))"
    by (simp add: addColumns_eq)
  also have "\<dots> = (?P @ concat (map (\<lambda>f. '','' @ columnOf uni f) ?K)) @ '',''"
    by (simp only: comma_shift append_assoc)
  finally have "TrimSuffix (addColumns uni (Fields entity) (?P @ '','')) '',''
                = ?P @ concat (map (\<lambda>f. '','' @ columnOf uni f) ?K)"
    by (simp only: TrimSuffix_append)
  moreover have "createTableSQL uni entity
     = TrimSuffix (addColumns uni (Fields entity) (?P @ '','')) '','' @ '')''"
    by (simp add: createTableSQL_def Let_def)
  ultimately show ?thesis by simp
qed

lemma runSeq_append:
  "runSeq exec (xs @ ys) db =
     (case runSeq exec xs db of (Some err, db') \<Rightarrow> (Some err, db') | (None, db') \<Rightarrow> runSeq exec ys db')"
  by (induction xs arbitrary: db) (auto split: prod.splits option.splits)

lemma tablesLoop_runSeq:
  "tablesLoop uni exec es db = runSeq exec (map (createTableSQL uni) es) db"
  by (induction es arbitrary: db) (auto simp: createTable_def split: prod.splits option.splits)

lemma relationshipsLoop_runSeq:
  "relationshipsLoop uni exec e fs db = runSeq exec (map (junctionSQL uni e) (filter IsMany fs)) db"
  by (induction fs arbitrary: db) (auto split: prod.splits option.splits)

lemma junctionsLoop_runSeq:
  "junctionsLoop uni exec es db =
     runSeq exec (concat (map (\<lambda>e. map (junctionSQL uni e) (filter IsMany (Fields e))) es)) db"
  by (induction es arbitrary: db)
     (auto simp: createRelationships_def relationshipsLoop_runSeq runSeq_append
           split: prod.splits option.splits)

lemma GenerateSchema_runSeq:
  "GenerateSchema uni exec model db = runSeq exec (statements uni model) db"
  by (auto simp: GenerateSchema_def statements_def runSeq_append tablesLoop_runSeq junctionsLoop_runSeq
           split: prod.splits option.splits)

lemma runSeq_first_failure:
  "runSeq exec done db = (None, db1) \<Longrightarrow> exec stmt db1 = (Some err, db2)
     \<Longrightarrow> runSeq exec (done @ stmt # rest) db = (Some err, db2)"
  by (simp add: runSeq_append)

lemma traced_runSeq:
  "runSeq exec stmts db = (None, db1) \<Longrightarrow> runSeq (traced exec) stmts (db, log) = (None, (db1, log @ stmts))"
proof (induction stmts arbitrary: db log)
  case Nil
  then show ?case by simp
next
  case (Cons s ss)
  from Cons.prems obtain dbm where s: "exec s db = (None, dbm)" and r: "runSeq exec ss dbm = (None, db1)"
    by (auto split: prod.splits option.splits)
  from Cons.IH[OF r, of "log @ [s]"] s show ?case
    by (simp add: traced_def)
qed

section \<open>The loop of the parser\<close>

lemma HasPrefix_nonempty: "HasPrefix s ''-'' \<Longrightarrow> s \<noteq> []"
  by (auto simp: HasPrefix_def)

lemma scanStep_blank: "isBlank text \<Longrightarrow> scanStep text st = Inr st"
  by (simp add: scanStep_def isBlank_def)

lemma scanStep_header:
  "isHeader text \<Longrightarrow> scanStep text st =
     Inr \<lparr>stateql = \<lparr>Entities = Entities (stateql st) @ [\<lparr>Entity.Name = headerName text, Fields = []\<rparr>]\<rparr>,
          currentEntity = Some (length (Entities (stateql st)))\<rparr>"
  by (simp add: scanStep_def isHeader_def headerName_def Let_def)

lemma scanStep_field_dropped:
  "isFieldLine text \<Longrightarrow> currentEntity st = None \<Longrightarrow> scanStep text st = Inr st"
  by (auto simp: scanStep_def isFieldLine_def Let_def dest: HasPrefix_nonempty)

lemma scanStep_field:
  "isFieldLine text \<Longrightarrow> currentEntity st = Some i \<Longrightarrow> parses text \<Longrightarrow>
   scanStep text st =
     Inr (st\<lparr>stateql := \<lparr>Entities = (Entities (stateql st))
              [i := (Entities (stateql st) ! i)\<lparr>Fields := Fields (Entities (stateql st) ! i) @ [fieldOf text]\<rparr>]\<rparr>\<rparr>)"
  by (auto simp: scanStep_def isFieldLine_def Let_def parses_def fieldOf_def
           dest: HasPrefix_nonempty split: sum.splits)

lemma scanStep_field_panic:
  "isFieldLine text \<Longrightarrow> currentEntity st = Some i \<Longrightarrow> \<not> parses text \<Longrightarrow>
   \<exists>p. scanStep text st = Inl p"
  by (auto simp: scanStep_def isFieldLine_def Let_def parses_def
           dest: HasPrefix_nonempty split: sum.splits)

lemma line_kinds: "isBlank text \<or> isHeader text \<or> isFieldLine text"
  by (auto simp: isBlank_def isHeader_def isFieldLine_def)

lemma scanLoop_append:
  "scanLoop (xs @ ys) st = (case scanLoop xs st of Inl p \<Rightarrow> Inl p | Inr st' \<Rightarrow> scanLoop ys st')"
  by (induction xs arbitrary: st) (auto split: sum.splits)


lemma ptr_ok_init: "ptr_ok initState"
  by (simp add: ptr_ok_def initState_def)

lemma map_name_update:
  "map Entity.Name (es[i := (es ! i)\<lparr>Fields := fs\<rparr>]) = map Entity.Name es"
  by (cases "i < length es") (simp_all add: map_update list_update_same_conv list_update_beyond)

lemma scanStep_names:
  assumes "ptr_ok st" and "scanStep text st = Inr st'"
  shows "ptr_ok st' \<and>
         map Entity.Name (Entities (stateql st')) =
           map Entity.Name (Entities (stateql st)) @ map headerName (filter isHeader [text])"
proof -
  consider (blank) "isBlank text" | (header) "isHeader text" | (field) "isFieldLine text"
    using line_kinds by blast
  then show ?thesis
  proof cases
    case blank
    then have "\<not> isHeader text" by (simp add: isBlank_def isHeader_def)
    with blank assms show ?thesis by (simp add: scanStep_blank)
  next
    case header
    with assms show ?thesis by (auto simp: scanStep_header ptr_ok_def)
  next
    case field
    then have nh: "\<not> isHeader text" by (simp add: isFieldLine_def isHeader_def)
    show ?thesis
    proof (cases "currentEntity st")
      case None
      with field nh assms show ?thesis by (simp add: scanStep_field_dropped)
    next
      case (Some i)
      show ?thesis
      proof (cases "parses text")
        case True
        with field Some nh assms show ?thesis
          by (auto simp: scanStep_field ptr_ok_def map_name_update split: if_splits)
      next
        case False
        with field Some assms show ?thesis
          using scanStep_field_panic[of "text" st i] by auto
      qed
    qed
  qed
qed

lemma scanLoop_names:
  "ptr_ok st \<Longrightarrow> scanLoop ls st = Inr st' \<Longrightarrow>
     ptr_ok st' \<and>
     map Entity.Name (Entities (stateql st')) =
       map Entity.Name (Entities (stateql st)) @ map headerName (filter isHeader ls)"
proof (induction ls arbitrary: st)
  case Nil
  then show ?case by simp
next
  case (Cons l ls)
  from Cons.prems(2) obtain st1 where s1: "scanStep l st = Inr st1" and r: "scanLoop ls st1 = Inr st'"
    by (auto split: sum.splits)
  from scanStep_names[OF Cons.prems(1) s1] have p1: "ptr_ok st1"
    and n1: "map Entity.Name (Entities (stateql st1)) =
             map Entity.Name (Entities (stateql st)) @ map headerName (filter isHeader [l])"
    by simp_all
  from Cons.IH[OF p1 r] n1 show ?case by simp
qed

lemma scanStep_total:
  "\<not> isFieldLine text \<or> parses text \<Longrightarrow> \<exists>st'. scanStep text st = Inr st'"
  using line_kinds[of "text"]
  by (cases "currentEntity st")
     (auto simp: scanStep_blank scanStep_header scanStep_field scanStep_field_dropped
           isBlank_def isFieldLine_def isHeader_def)

lemma scanLoop_total:
  "list_all (\<lambda>l. \<not> isFieldLine l \<or> parses l) ls \<Longrightarrow> \<exists>st'. scanLoop ls st = Inr st'"
proof (induction ls arbitrary: st)
  case Nil
  then show ?case by simp
next
  case (Cons l ls)
  then have "\<not> isFieldLine l \<or> parses l" by simp
  from scanStep_total[OF this] obtain st1 where "scanStep l st = Inr st1" by blast
  moreover from Cons have "\<exists>st'. scanLoop ls st1 = Inr st'" by simp
  ultimately show ?case by simp
qed

lemma scanLoop_body:
  "list_all (\<lambda>l. isBlank l \<or> isFieldLine l \<and> parses l) body \<Longrightarrow>
   scanLoop body \<lparr>stateql = \<lparr>Entities = es @ [e]\<rparr>, currentEntity = Some (length es)\<rparr> =
     Inr \<lparr>stateql = \<lparr>Entities = es @ [e\<lparr>Fields := Fields e @ map fieldOf (filter isFieldLine body)\<rparr>]\<rparr>,
          currentEntity = Some (length es)\<rparr>"
proof (induction body arbitrary: e)
  case Nil
  then show ?case by simp
next
  case (Cons l ls)
  let ?st = "\<lparr>stateql = \<lparr>Entities = es @ [e]\<rparr>, currentEntity = Some (length es)\<rparr>"
  from Cons.prems have rest: "list_all (\<lambda>l. isBlank l \<or> isFieldLine l \<and> parses l) ls" by simp
  from Cons.prems consider (blank) "isBlank l" | (field) "isFieldLine l" "parses l" by auto
  then show ?case
  proof cases
    case blank
    then have "\<not> isFieldLine l" by (auto simp: isBlank_def isFieldLine_def dest: HasPrefix_nonempty)
    with blank Cons.IH[OF rest, of e] show ?thesis by (simp add: scanStep_blank)
  next
    case field
    have "scanStep l ?st =
            Inr \<lparr>stateql = \<lparr>Entities = es @ [e\<lparr>Fields := Fields e @ [fieldOf l]\<rparr>]\<rparr>,
                 currentEntity = Some (length es)\<rparr>"
      using field by (simp add: scanStep_field[where i = "length es"])
    with field Cons.IH[OF rest, of "e\<lparr>Fields := Fields e @ [fieldOf l]\<rparr>"] show ?thesis by simp
  qed
qed

lemma scanStep_keeps:
  assumes "ptr_ok st" and "k + 1 < length (Entities (stateql st))" and "scanStep text st = Inr st'"
  shows "ptr_ok st' \<and> k + 1 < length (Entities (stateql st')) \<and>
         Entities (stateql st') ! k = Entities (stateql st) ! k"
proof -
  let ?es = "Entities (stateql st)"
  let ?i = "length ?es - 1"
  from assms(1,2) have cur: "currentEntity st = Some ?i"
    by (auto simp: ptr_ok_def)
  consider (blank) "isBlank text" | (header) "isHeader text" | (field) "isFieldLine text"
    using line_kinds by blast
  then show ?thesis
  proof cases
    case blank
    with assms show ?thesis by (simp add: scanStep_blank)
  next
    case header
    from assms(3) have "st' = \<lparr>stateql = \<lparr>Entities = ?es @ [\<lparr>Entity.Name = headerName text, Fields = []\<rparr>]\<rparr>,
          currentEntity = Some (length ?es)\<rparr>"
      by (simp add: scanStep_header[OF header])
    with assms(2) show ?thesis by (simp add: ptr_ok_def nth_append)
  next
    case field
    show ?thesis
    proof (cases "parses text")
      case True
      from assms(3) have st': "st' = st\<lparr>stateql := \<lparr>Entities = ?es
              [?i := (?es ! ?i)\<lparr>Fields := Fields (?es ! ?i) @ [fieldOf text]\<rparr>]\<rparr>\<rparr>"
        by (simp add: scanStep_field[OF field cur True])
      from assms(2) have "k \<noteq> ?i" and "?es \<noteq> []" by auto
      with st' cur assms(2) show ?thesis by (simp add: ptr_ok_def)
    next
      case False
      from scanStep_field_panic[OF field cur False] assms(3) show ?thesis by auto
    qed
  qed
qed

lemma scanLoop_keeps:
  "ptr_ok st \<Longrightarrow> k + 1 < length (Entities (stateql st)) \<Longrightarrow> scanLoop ls st = Inr st' \<Longrightarrow>
     k + 1 < length (Entities (stateql st')) \<and> Entities (stateql st') ! k = Entities (stateql st) ! k"
proof (induction ls arbitrary: st)
  case Nil
  then show ?case by simp
next
  case (Cons l ls)
  from Cons.prems(3) obtain st1 where s1: "scanStep l st = Inr st1" and r: "scanLoop ls st1 = Inr st'"
    by (auto split: sum.splits)
  from scanStep_keeps[OF Cons.prems(1,2) s1] have p1: "ptr_ok st1"
    and l1: "k + 1 < length (Entities (stateql st1))"
    and e1: "Entities (stateql st1) ! k = Entities (stateql st) ! k"
    by simp_all
  from Cons.IH[OF p1 l1 r] e1 show ?case by simp
qed

lemma ToLower_Nil: "ToLower uni [] = []"
  by (simp add: ToLower_def isASCII_def)

lemma columnOf_zeroField: "columnOf uni zeroField = '' TEXT''"
  by (simp add: columnOf_def zeroField_def mapTypeToPostgres_def ToLower_Nil)

lemma hasColumn_zeroField: "hasColumn zeroField"
  by (simp add: hasColumn_def zeroField_def)

section \<open>The table pass\<close>

text \<open>
  Claim C5. \<open>createTable\<close> gives the executor one statement for the entity:
  \<open>CREATE TABLE IF NOT EXISTS\<close>, the lowercased entity name, the synthetic column
  \<open>id SERIAL PRIMARY KEY\<close> first, and then, in declaration order, one column (lowercased
  name, a blank, the type of the type mapper) for each field that is neither a many
  relation nor an action, and none for the others. The table pass of a store that rejects
  nothing runs exactly these statements, one for each entity in order. An entity that
  declares a field \<open>id\<close> of its own gets two columns named \<open>id\<close>.
\<close>

theorem createTable_statement:
  "createTable uni exec entity db = exec (createTableSQL uni entity) db
   \<and> createTableSQL uni entity =
       ''CREATE TABLE IF NOT EXISTS '' @ ToLower uni (Entity.Name entity) @ '' (''
       @ ''id SERIAL PRIMARY KEY''
       @ concat (map (\<lambda>field. '','' @ ToLower uni (Field.Name field) @ '' ''
                                  @ mapTypeToPostgres uni (Type field))
                   (filter (\<lambda>field. \<not> IsMany field \<and> \<not> IsAction field) (Fields entity)))
       @ '')''
   \<and> tablesLoop uni (listStore (\<lambda>stmt. False)) entities [] =
       (None, map (createTableSQL uni) entities)
   \<and> createTableSQL uni
        \<lparr>Entity.Name = ''User'',
         Fields = [zeroField\<lparr>Field.Name := ''id'', Type := ''text''\<rparr>,
                   zeroField\<lparr>Field.Name := ''friends'', IsMany := True\<rparr>,
                   zeroField\<lparr>Field.Name := ''rename'', IsAction := True\<rparr>]\<rparr> =
       ''CREATE TABLE IF NOT EXISTS user (id SERIAL PRIMARY KEY,id TEXT)''"
proof -
  have never: "runSeq (listStore (\<lambda>stmt. False)) stmts db0 = (None, db0 @ stmts)" for stmts db0
    by (induction stmts arbitrary: db0) (simp_all add: listStore_def)
  have "createTableSQL uni entity =
       ''CREATE TABLE IF NOT EXISTS '' @ ToLower uni (Entity.Name entity) @ '' (''
       @ ''id SERIAL PRIMARY KEY''
       @ concat (map (\<lambda>field. '','' @ columnOf uni field) (filter hasColumn (Fields entity)))
       @ '')''"
    by (rule createTableSQL_shape)
  moreover have "hasColumn = (\<lambda>field. \<not> IsMany field \<and> \<not> IsAction field)"
    by (rule ext) (simp add: hasColumn_def)
  moreover have "columnOf uni = (\<lambda>field. ToLower uni (Field.Name field) @ '' ''
                                  @ mapTypeToPostgres uni (Type field))"
    by (rule ext) (simp add: columnOf_def)
  moreover have "createTableSQL uni
        \<lparr>Entity.Name = ''User'',
         Fields = [zeroField\<lparr>Field.Name := ''id'', Type := ''text''\<rparr>,
                   zeroField\<lparr>Field.Name := ''friends'', IsMany := True\<rparr>,
                   zeroField\<lparr>Field.Name := ''rename'', IsAction := True\<rparr>]\<rparr> =
       ''CREATE TABLE IF NOT EXISTS user (id SERIAL PRIMARY KEY,id TEXT)''"
    by (simp add: createTableSQL_def mapTypeToPostgres_def zeroField_def Let_def
          ToLower_def isASCII_def lowerASCII_def TrimSuffix_def HasSuffix_def)
  ultimately show ?thesis
    by (simp add: createTable_def tablesLoop_runSeq never)
qed

section \<open>Failure of a statement\<close>

text \<open>
  Claim C6. When the statements before \<open>stmt\<close> all succeed and the executor fails on
  \<open>stmt\<close>, \<open>GenerateSchema\<close> returns that very error, and the database is as the failing
  call left it: what the statements before did is still done. The traced executor shows
  that the statements given to the executor are those up to \<open>stmt\<close> and no later one.
\<close>

theorem GenerateSchema_aborts_at_first_failure:
  assumes "statements uni model = done @ stmt # rest"
    and "runSeq exec done db = (None, db1)"
    and "exec stmt db1 = (Some err, db2)"
  shows "GenerateSchema uni exec model db = (Some err, db2)
         \<and> GenerateSchema uni (traced exec) model (db, []) = (Some err, (db2, done @ [stmt]))"
proof -
  have plain: "GenerateSchema uni exec model db = (Some err, db2)"
    using assms by (simp add: GenerateSchema_runSeq runSeq_first_failure)
  have "runSeq (traced exec) done (db, []) = (None, (db1, [] @ done))"
    using assms(2) by (rule traced_runSeq)
  moreover have "traced exec stmt (db1, done) = (Some err, (db2, done @ [stmt]))"
    using assms(3) by (simp add: traced_def)
  ultimately have "runSeq (traced exec) (done @ stmt # rest) (db, []) = (Some err, (db2, done @ [stmt]))"
    by (simp add: runSeq_first_failure)
  with assms(1) plain show ?thesis
    by (simp add: GenerateSchema_runSeq)
qed

text \<open>Three entities, and a store that rejects the table of the second.\<close>

lemma abc_statements:
  "statements (\<lambda>s. s) \<lparr>Entities = [\<lparr>Entity.Name = ''A'', Fields = []\<rparr>,
        \<lparr>Entity.Name = ''B'', Fields = []\<rparr>, \<lparr>Entity.Name = ''C'', Fields = []\<rparr>]\<rparr>
   = [''CREATE TABLE IF NOT EXISTS a (id SERIAL PRIMARY KEY)''] @
      ''CREATE TABLE IF NOT EXISTS b (id SERIAL PRIMARY KEY)'' #
      [''CREATE TABLE IF NOT EXISTS c (id SERIAL PRIMARY KEY)'']"
  by (simp add: statements_def createTableSQL_def Let_def
          ToLower_def isASCII_def lowerASCII_def TrimSuffix_def HasSuffix_def)

theorem GenerateSchema_aborts_at_first_failure_witness:
  "GenerateSchema (\<lambda>s. s)
     (listStore (\<lambda>stmt. stmt = ''CREATE TABLE IF NOT EXISTS b (id SERIAL PRIMARY KEY)''))
     \<lparr>Entities = [\<lparr>Entity.Name = ''A'', Fields = []\<rparr>,
        \<lparr>Entity.Name = ''B'', Fields = []\<rparr>, \<lparr>Entity.Name = ''C'', Fields = []\<rparr>]\<rparr> []
   = (Some ''rejected'', [''CREATE TABLE IF NOT EXISTS a (id SERIAL PRIMARY KEY)''])
   \<and> GenerateSchema (\<lambda>s. s)
     (traced (listStore (\<lambda>stmt. stmt = ''CREATE TABLE IF NOT EXISTS b (id SERIAL PRIMARY KEY)'')))
     \<lparr>Entities = [\<lparr>Entity.Name = ''A'', Fields = []\<rparr>,
        \<lparr>Entity.Name = ''B'', Fields = []\<rparr>, \<lparr>Entity.Name = ''C'', Fields = []\<rparr>]\<rparr> ([], [])
   = (Some ''rejected'', ([''CREATE TABLE IF NOT EXISTS a (id SERIAL PRIMARY KEY)''],
        [''CREATE TABLE IF NOT EXISTS a (id SERIAL PRIMARY KEY)'',
         ''CREATE TABLE IF NOT EXISTS b (id SERIAL PRIMARY KEY)'']))"
proof -
  let ?bad = "\<lambda>stmt. stmt = ''CREATE TABLE IF NOT EXISTS b (id SERIAL PRIMARY KEY)''"
  have h2: "runSeq (listStore ?bad) [''CREATE TABLE IF NOT EXISTS a (id SERIAL PRIMARY KEY)''] []
            = (None, [''CREATE TABLE IF NOT EXISTS a (id SERIAL PRIMARY KEY)''])"
    by (simp add: listStore_def)
  have h3: "listStore ?bad ''CREATE TABLE IF NOT EXISTS b (id SERIAL PRIMARY KEY)''
              [''CREATE TABLE IF NOT EXISTS a (id SERIAL PRIMARY KEY)'']
            = (Some ''rejected'', [''CREATE TABLE IF NOT EXISTS a (id SERIAL PRIMARY KEY)''])"
    by (simp add: listStore_def)
  show ?thesis
    using GenerateSchema_aborts_at_first_failure [OF abc_statements h2 h3] by simp
qed

lemma parseField_id:
  "parseField ''- id is text'' = Inr (zeroField\<lparr>Field.Name := ''id'', Type := ''text''\<rparr>)"
  by (simp add: parseField_def str_defs Let_def)

lemma parseField_friends:
  "parseField ''- friends is many User thru befriendedBy'' =
     Inr (zeroField\<lparr>Field.Name := ''friends'', IsMany := True, Through := ''befriendedBy''\<rparr>)"
  by (simp add: parseField_def str_defs Let_def)

lemma scanLines_user:
  "scanLines ''User:\<newline>- id is text\<newline>- friends is many User thru befriendedBy'' =
     [''User:'', ''- id is text'', ''- friends is many User thru befriendedBy'']"
  by (simp add: scanLines_def dropCR_def MaxScanTokenSize_def)

lemma TrimSpace_user:
  "TrimSpace ''User:'' = ''User:''"
  "TrimSpace ''- id is text'' = ''- id is text''"
  "TrimSpace ''- friends is many User thru befriendedBy'' = ''- friends is many User thru befriendedBy''"
  by (simp_all add: str_defs)

lemma ParseStateQL_user:
  "ParseStateQL ''User:\<newline>- id is text\<newline>- friends is many User thru befriendedBy'' =
     Inr (\<lparr>Entities = [\<lparr>Entity.Name = ''User'',
            Fields = [zeroField\<lparr>Field.Name := ''id'', Type := ''text''\<rparr>,
                      zeroField\<lparr>Field.Name := ''friends'', IsMany := True,
                                Through := ''befriendedBy''\<rparr>]\<rparr>]\<rparr>, None)"
  by (simp add: ParseStateQL_def scanLines_user scanStep_def TrimSpace_user parseField_id
        parseField_friends initState_def HasPrefix_def TrimSuffix_def HasSuffix_def)

lemma statements_user:
  "statements uni \<lparr>Entities = [\<lparr>Entity.Name = ''User'',
            Fields = [zeroField\<lparr>Field.Name := ''id'', Type := ''text''\<rparr>,
                      zeroField\<lparr>Field.Name := ''friends'', IsMany := True,
                                Through := ''befriendedBy''\<rparr>]\<rparr>]\<rparr> =
     [''CREATE TABLE IF NOT EXISTS user (id SERIAL PRIMARY KEY,id TEXT)'',
      indent 4 @ ''CREATE TABLE IF NOT EXISTS user_friends (''
      @ indent 5 @ ''user_id INTEGER REFERENCES user(id),''
      @ indent 5 @ ''befriendedby_id INTEGER REFERENCES befriendedby(id),''
      @ indent 5 @ ''PRIMARY KEY (user_id, befriendedby_id)''
      @ indent 4 @ '')'']"
  by (simp add: statements_def createTableSQL_def junctionSQL_def mapTypeToPostgres_def
        zeroField_def Let_def ToLower_def isASCII_def lowerASCII_def TrimSuffix_def HasSuffix_def)

section \<open>The end-to-end example\<close>

text \<open>
  Claim C1. The text of three lines, \<open>User:\<close>, \<open>- id is text\<close> and
  \<open>- friends is many User thru befriendedBy\<close>, parses to one entity with a scalar and a
  many field, and \<open>GenerateSchema\<close> on that model gives the store two statements: the
  table \<open>user\<close>, and the junction table \<open>user_friends\<close> with the columns \<open>user_id\<close> and
  \<open>befriendedby_id\<close> and the primary key over both.
\<close>

theorem user_friends_end_to_end:
  "ParseStateQL ''User:\<newline>- id is text\<newline>- friends is many User thru befriendedBy'' =
     Inr (\<lparr>Entities = [\<lparr>Entity.Name = ''User'',
            Fields = [zeroField\<lparr>Field.Name := ''id'', Type := ''text''\<rparr>,
                      zeroField\<lparr>Field.Name := ''friends'', IsMany := True,
                                Through := ''befriendedBy''\<rparr>]\<rparr>]\<rparr>, None)
   \<and> GenerateSchema uni (listStore (\<lambda>stmt. False))
        \<lparr>Entities = [\<lparr>Entity.Name = ''User'',
            Fields = [zeroField\<lparr>Field.Name := ''id'', Type := ''text''\<rparr>,
                      zeroField\<lparr>Field.Name := ''friends'', IsMany := True,
                                Through := ''befriendedBy''\<rparr>]\<rparr>]\<rparr> [] =
       (None,
        [''CREATE TABLE IF NOT EXISTS user (id SERIAL PRIMARY KEY,id TEXT)'',
         indent 4 @ ''CREATE TABLE IF NOT EXISTS user_friends (''
         @ indent 5 @ ''user_id INTEGER REFERENCES user(id),''
         @ indent 5 @ ''befriendedby_id INTEGER REFERENCES befriendedby(id),''
         @ indent 5 @ ''PRIMARY KEY (user_id, befriendedby_id)''
         @ indent 4 @ '')''])"
  by (simp only: ParseStateQL_user GenerateSchema_runSeq statements_user)
     (simp add: listStore_def)

section \<open>Parentheses that are not closed\<close>

text \<open>
  Claim C9. On the field line \<open>- x is action thru put(files\<close> the closing parenthesis is
  missing, \<open>strings.Index\<close> returns \<open>-1\<close> for it, the slice expression \<open>[4:-1]\<close> is out of
  bounds and \<open>parseField\<close> panics; so does the function branch, and so does
  \<open>ParseStateQL\<close> on a text with such a line under an entity header.
\<close>

theorem parseField_panics_on_unclosed_parenthesis:
  "parseField ''- x is action thru put(files'' = Inl SliceBoundsOutOfRange
   \<and> Index ''put(files'' '')'' = - 1
   \<and> slice ''put(files'' (Index ''put(files'' ''('' + 1) (Index ''put(files'' '')'')
        = Inl SliceBoundsOutOfRange
   \<and> parseField ''- n is number thru count(friends'' = Inl SliceBoundsOutOfRange
   \<and> ParseStateQL ''User:\<newline>- x is action thru put(files'' = Inl SliceBoundsOutOfRange"
proof -
  have f: "parseField ''- x is action thru put(files'' = Inl SliceBoundsOutOfRange"
    by (simp add: parseField_def str_defs Let_def)
  have l: "scanLines ''User:\<newline>- x is action thru put(files'' =
             [''User:'', ''- x is action thru put(files'']"
    by (simp add: scanLines_def dropCR_def MaxScanTokenSize_def)
  have t: "TrimSpace ''User:'' = ''User:''"
    "TrimSpace ''- x is action thru put(files'' = ''- x is action thru put(files''"
    by (simp_all add: str_defs)
  have "ParseStateQL ''User:\<newline>- x is action thru put(files'' = Inl SliceBoundsOutOfRange"
    by (simp add: ParseStateQL_def l scanStep_def t f initState_def HasPrefix_def
          TrimSuffix_def HasSuffix_def)
  moreover have "parseField ''- n is number thru count(friends'' = Inl SliceBoundsOutOfRange"
    by (simp add: parseField_def str_defs Let_def)
  moreover have "Index ''put(files'' '')'' = - 1"
    by (simp add: Index_def HasPrefix_def)
  moreover have "slice ''put(files'' (Index ''put(files'' ''('' + 1) (Index ''put(files'' '')'')
        = Inl SliceBoundsOutOfRange"
    by (simp add: Index_def HasPrefix_def slice_def)
  ultimately show ?thesis using f by simp
qed

text \<open>
  Claim C7. \<open>ParseStateQL\<close> does not return a model on every text: on the two lines
  \<open>Task:\<close> and \<open>- summary is text thru summarize(content\<close> it panics.
\<close>

theorem ParseStateQL_does_not_return_on_unclosed_parenthesis:
  "ParseStateQL ''Task:\<newline>- summary is text thru summarize(content'' = Inl SliceBoundsOutOfRange"
proof -
  have f: "parseField ''- summary is text thru summarize(content'' = Inl SliceBoundsOutOfRange"
    by (simp add: parseField_def str_defs Let_def)
  have l: "scanLines ''Task:\<newline>- summary is text thru summarize(content'' =
             [''Task:'', ''- summary is text thru summarize(content'']"
    by (simp add: scanLines_def dropCR_def MaxScanTokenSize_def)
  have t: "TrimSpace ''Task:'' = ''Task:''"
    "TrimSpace ''- summary is text thru summarize(content'' = ''- summary is text thru summarize(content''"
    by (simp_all add: str_defs)
  show ?thesis
    by (simp add: ParseStateQL_def l scanStep_def t f initState_def HasPrefix_def
          TrimSuffix_def HasSuffix_def)
qed

text \<open>When \<open>ParseStateQL\<close> returns, its error is nil.\<close>

lemma ParseStateQL_error_nil:
  "ParseStateQL content = Inr (model, err) \<Longrightarrow> err = None"
  by (auto simp: ParseStateQL_def split: sum.splits)


section \<open>Entity blocks\<close>

text \<open>
  Claim C2. Let no field line of the text make \<open>parseField\<close> panic. When the scanned
  lines are \<open>pre\<close>, then a header line, then lines \<open>body\<close> that are field lines or blank,
  and then nothing or another header line, the parser returns a model, without an error,
  in which the entity of that header (the one behind as many entities as \<open>pre\<close> has
  header lines) has the trimmed header line without one trailing colon as its name and
  the fields of the field lines of \<open>body\<close>, as many and in the same order.
\<close>

theorem header_and_field_lines_give_entity:
  assumes lines: "scanLines content = pre @ header # body @ post"
    and wf: "list_all (\<lambda>l. \<not> isFieldLine l \<or> parses l) (scanLines content)"
    and header: "isHeader header"
    and body: "list_all (\<lambda>l. isBlank l \<or> isFieldLine l) body"
    and post: "post = [] \<or> isHeader (hd post)"
  shows "\<exists>model. ParseStateQL content = Inr (model, None)
           \<and> length (filter isHeader pre) < length (Entities model)
           \<and> Entities model ! length (filter isHeader pre) =
               \<lparr>Entity.Name = headerName header,
                Fields = map fieldOf (filter isFieldLine body)\<rparr>"
proof -
  let ?k = "length (filter isHeader pre)"
  let ?e = "\<lparr>Entity.Name = headerName header, Fields = map fieldOf (filter isFieldLine body)\<rparr>"
  from wf lines have wpre: "list_all (\<lambda>l. \<not> isFieldLine l \<or> parses l) pre"
    and wbody: "list_all (\<lambda>l. \<not> isFieldLine l \<or> parses l) body"
    and wpost: "list_all (\<lambda>l. \<not> isFieldLine l \<or> parses l) post"
    by simp_all
  from scanLoop_total[OF wpre] obtain st1 where st1: "scanLoop pre initState = Inr st1"
    by blast
  from scanLoop_names[OF ptr_ok_init st1]
  have "map Entity.Name (Entities (stateql st1)) = map headerName (filter isHeader pre)"
    by (simp add: initState_def)
  then have "length (map Entity.Name (Entities (stateql st1))) = length (map headerName (filter isHeader pre))"
    by (rule arg_cong)
  then have len1: "length (Entities (stateql st1)) = ?k" by simp
  let ?es = "Entities (stateql st1)"
  let ?st2 = "\<lparr>stateql = \<lparr>Entities = ?es @ [\<lparr>Entity.Name = headerName header, Fields = []\<rparr>]\<rparr>,
               currentEntity = Some (length ?es)\<rparr>"
  let ?st3 = "\<lparr>stateql = \<lparr>Entities = ?es @ [?e]\<rparr>, currentEntity = Some (length ?es)\<rparr>"
  have s2: "scanStep header st1 = Inr ?st2"
    by (rule scanStep_header[OF header])
  from body wbody have "list_all (\<lambda>l. isBlank l \<or> isFieldLine l \<and> parses l) body"
    by (auto simp: list_all_iff)
  from scanLoop_body[OF this, of ?es "\<lparr>Entity.Name = headerName header, Fields = []\<rparr>"]
  have s3: "scanLoop body ?st2 = Inr ?st3" by simp
  have p3: "ptr_ok ?st3" by (simp add: ptr_ok_def)
  from scanLoop_total[OF wpost] obtain st4 where st4: "scanLoop post ?st3 = Inr st4"
    by blast
  have keep: "?k < length (Entities (stateql st4)) \<and> Entities (stateql st4) ! ?k = ?e"
  proof (cases post)
    case Nil
    with st4 show ?thesis using len1[symmetric] by (auto simp: nth_append)
  next
    case (Cons h rest)
    with post have h: "isHeader h" by simp
    let ?st3' = "\<lparr>stateql = \<lparr>Entities = (?es @ [?e]) @ [\<lparr>Entity.Name = headerName h, Fields = []\<rparr>]\<rparr>,
                  currentEntity = Some (length (?es @ [?e]))\<rparr>"
    have "scanStep h ?st3 = Inr ?st3'"
      using scanStep_header[OF h, of ?st3] by simp
    with st4 Cons have r: "scanLoop rest ?st3' = Inr st4" by simp
    have "ptr_ok ?st3'" by (simp add: ptr_ok_def)
    moreover have "?k + 1 < length (Entities (stateql ?st3'))" using len1 by simp
    ultimately have "?k + 1 < length (Entities (stateql st4)) \<and>
                     Entities (stateql st4) ! ?k = Entities (stateql ?st3') ! ?k"
      using r by (rule scanLoop_keeps)
    with len1 show ?thesis by (simp add: nth_append)
  qed
  have "scanLoop (pre @ header # body @ post) initState = Inr st4"
    using st1 s2 s3 st4 by (simp add: scanLoop_append)
  with lines have "ParseStateQL content = Inr (stateql st4, None)"
    by (simp add: ParseStateQL_def)
  with keep show ?thesis by blast
qed

theorem header_and_field_lines_give_entity_witness:
  "\<exists>model. ParseStateQL ''User:\<newline>- id is text\<newline>- friends is many User thru befriendedBy''
              = Inr (model, None)
           \<and> Entities model ! 0 =
               \<lparr>Entity.Name = ''User'',
                Fields = [zeroField\<lparr>Field.Name := ''id'', Type := ''text''\<rparr>,
                          zeroField\<lparr>Field.Name := ''friends'', IsMany := True,
                                    Through := ''befriendedBy''\<rparr>]\<rparr>"
proof -
  let ?body = "[''- id is text'', ''- friends is many User thru befriendedBy'']"
  have l: "scanLines ''User:\<newline>- id is text\<newline>- friends is many User thru befriendedBy''
             = [] @ ''User:'' # ?body @ []"
    by (simp add: scanLines_user)
  have wf: "list_all (\<lambda>l. \<not> isFieldLine l \<or> parses l)
              (scanLines ''User:\<newline>- id is text\<newline>- friends is many User thru befriendedBy'')"
    by (simp add: scanLines_user parses_def TrimSpace_user parseField_id parseField_friends
          isFieldLine_def HasPrefix_def)
  have h: "isHeader ''User:''"
    by (simp add: isHeader_def TrimSpace_user HasPrefix_def)
  have b: "list_all (\<lambda>l. isBlank l \<or> isFieldLine l) ?body"
    by (simp add: isFieldLine_def TrimSpace_user HasPrefix_def)
  have p: "[] = [] \<or> isHeader (hd ([]::string list))" by simp
  show ?thesis
    using header_and_field_lines_give_entity [OF l wf h b p]
    by (auto simp: headerName_def fieldOf_def isFieldLine_def TrimSpace_user parseField_id
          parseField_friends HasPrefix_def TrimSuffix_def HasSuffix_def)
qed

text \<open>
  Claim C8, as amended. The lines in question are those that the scanner delivers,
  \<open>scanLines content\<close>: the lines of the text in front of its first line of 65536 bytes or
  more, and all of its lines when it has no such line. The parser returns when no field
  line among them makes \<open>parseField\<close> panic, and whenever it returns, the names of the
  entities of the model are, in order, the names of the header lines among them: a name
  stands in the model as often as the scanner delivers a header line of that name, and
  nothing makes the names unique. A header line behind a line of 65536 bytes or more
  gives no entity.
\<close>

theorem entity_names_follow_header_lines:
  "(list_all (\<lambda>l. \<not> isFieldLine l \<or> parses l) (scanLines content)
      \<longrightarrow> (\<exists>model. ParseStateQL content = Inr (model, None)))
   \<and> (ParseStateQL content = Inr (model, err)
      \<longrightarrow> map Entity.Name (Entities model) = map headerName (filter isHeader (scanLines content)))"
proof (intro conjI impI)
  assume "list_all (\<lambda>l. \<not> isFieldLine l \<or> parses l) (scanLines content)"
  from scanLoop_total[OF this] obtain st where "scanLoop (scanLines content) initState = Inr st"
    by blast
  then show "\<exists>model. ParseStateQL content = Inr (model, None)"
    by (simp add: ParseStateQL_def)
next
  assume "ParseStateQL content = Inr (model, err)"
  then obtain st where st: "scanLoop (scanLines content) initState = Inr st"
    and m: "model = stateql st"
    by (auto simp: ParseStateQL_def split: sum.splits)
  from scanLoop_names[OF ptr_ok_init st] m
  show "map Entity.Name (Entities model) = map headerName (filter isHeader (scanLines content))"
    by (simp add: initState_def)
qed

lemma scanLines_twice: "scanLines ''User:\<newline>User:'' = [''User:'', ''User:'']"
  by (simp add: scanLines_def dropCR_def MaxScanTokenSize_def)

theorem entity_names_not_unique_counterexample:
  "ParseStateQL ''User:\<newline>User:'' =
     Inr (\<lparr>Entities = [\<lparr>Entity.Name = ''User'', Fields = []\<rparr>,
                       \<lparr>Entity.Name = ''User'', Fields = []\<rparr>]\<rparr>, None)
   \<and> \<not> distinct (map Entity.Name [\<lparr>Entity.Name = ''User'', Fields = []\<rparr>,
                                   \<lparr>Entity.Name = ''User'', Fields = []\<rparr>])"
  by (simp add: ParseStateQL_def scanLines_twice scanStep_def TrimSpace_user initState_def
        HasPrefix_def TrimSuffix_def HasSuffix_def)

theorem entity_names_follow_header_lines_witness:
  "(\<exists>model. ParseStateQL ''User:\<newline>User:'' = Inr (model, None))
   \<and> map headerName (filter isHeader (scanLines ''User:\<newline>User:'')) = [''User'', ''User'']"
proof -
  let ?m = "\<lparr>Entities = [\<lparr>Entity.Name = ''User'', Fields = []\<rparr>,
                       \<lparr>Entity.Name = ''User'', Fields = []\<rparr>]\<rparr>"
  have wf: "list_all (\<lambda>l. \<not> isFieldLine l \<or> parses l) (scanLines ''User:\<newline>User:'')"
    by (simp add: scanLines_twice isFieldLine_def TrimSpace_user HasPrefix_def)
  have r: "ParseStateQL ''User:\<newline>User:'' = Inr (?m, None)"
    by (simp add: ParseStateQL_def scanLines_twice scanStep_def TrimSpace_user initState_def
          HasPrefix_def TrimSuffix_def HasSuffix_def)
  from entity_names_follow_header_lines [of "''User:\<newline>User:''" ?m None] wf r
  show ?thesis by simp
qed

lemma parseField_malformed:
  "length (Split (TrimSpace (TrimPrefix line ''- '')) '' is '') \<noteq> 2 \<Longrightarrow> parseField line = Inr zeroField"
  by (simp add: parseField_def Let_def)

section \<open>Field lines without the separator\<close>

text \<open>
  Claim C10. A field line that does not split into exactly two parts at \<open>" is "\<close>
  gives the zero field; under an open entity the loop appends that field to the entity;
  the column of the zero field is the empty name, a blank and \<open>TEXT\<close>, and the table
  statement of an entity with the zero field behind its other fields ends with that
  column.
\<close>

theorem malformed_field_line_gives_empty_TEXT_column:
  assumes "isFieldLine text"
    and "length (Split (TrimSpace (TrimPrefix (TrimSpace text) ''- '')) '' is '') \<noteq> 2"
    and "currentEntity st = Some i"
  shows "parseField (TrimSpace text) = Inr zeroField
       \<and> scanStep text st =
           Inr (st\<lparr>stateql := \<lparr>Entities = (Entities (stateql st))
                  [i := (Entities (stateql st) ! i)
                          \<lparr>Fields := Fields (Entities (stateql st) ! i) @ [zeroField]\<rparr>]\<rparr>\<rparr>)
       \<and> columnOf uni zeroField = '' TEXT''
       \<and> createTableSQL uni (entity\<lparr>Fields := Fields entity @ [zeroField]\<rparr>) =
           ''CREATE TABLE IF NOT EXISTS '' @ ToLower uni (Entity.Name entity) @ '' (''
           @ ''id SERIAL PRIMARY KEY''
           @ concat (map (\<lambda>field. '','' @ columnOf uni field) (filter hasColumn (Fields entity)))
           @ '', TEXT'' @ '')''"
proof -
  have z: "parseField (TrimSpace text) = Inr zeroField"
    using assms(2) by (rule parseField_malformed)
  then have "parses text" and "fieldOf text = zeroField"
    by (simp_all add: parses_def fieldOf_def)
  with assms(1,3) have "scanStep text st =
           Inr (st\<lparr>stateql := \<lparr>Entities = (Entities (stateql st))
                  [i := (Entities (stateql st) ! i)
                          \<lparr>Fields := Fields (Entities (stateql st) ! i) @ [zeroField]\<rparr>]\<rparr>\<rparr>)"
    by (simp add: scanStep_field)
  with z show ?thesis
    by (simp add: createTableSQL_shape columnOf_zeroField hasColumn_zeroField)
qed

theorem malformed_field_line_gives_empty_TEXT_column_witness:
  "scanStep ''- oops''
      \<lparr>stateql = \<lparr>Entities = [\<lparr>Entity.Name = ''T'', Fields = []\<rparr>]\<rparr>, currentEntity = Some 0\<rparr>
     = Inr \<lparr>stateql = \<lparr>Entities = [\<lparr>Entity.Name = ''T'', Fields = [zeroField]\<rparr>]\<rparr>,
            currentEntity = Some 0\<rparr>
   \<and> createTableSQL (\<lambda>s. s) \<lparr>Entity.Name = ''T'', Fields = [zeroField]\<rparr>
     = ''CREATE TABLE IF NOT EXISTS t (id SERIAL PRIMARY KEY, TEXT)''"
proof -
  have t: "TrimSpace ''- oops'' = ''- oops''" "TrimSpace ''oops'' = ''oops''"
    by (simp_all add: str_defs)
  have f: "isFieldLine ''- oops''"
    by (simp add: isFieldLine_def t HasPrefix_def)
  have s: "length (Split (TrimSpace (TrimPrefix (TrimSpace ''- oops'') ''- '')) '' is '') \<noteq> 2"
    by (simp add: t TrimPrefix_def HasPrefix_def Split_def)
  have c: "currentEntity \<lparr>stateql = \<lparr>Entities = [\<lparr>Entity.Name = ''T'', Fields = []\<rparr>]\<rparr>,
             currentEntity = Some 0\<rparr> = Some 0"
    by simp
  show ?thesis
    using malformed_field_line_gives_empty_TEXT_column
            [OF f s c, of "\<lambda>s. s" "\<lparr>Entity.Name = ''T'', Fields = []\<rparr>"]
    by (simp add: ToLower_def isASCII_def lowerASCII_def)
qed

lemma actionArgsLoop_required:
  "snd (actionArgsLoop ps i m r) =
     r @ map (\<lambda>part. TrimPrefix part '':'') (filter isRequired (map TrimSpace ps))"
  by (induction ps arbitrary: i m r) (simp_all add: Let_def isRequired_def)

lemma actionArgsLoop_arg1:
  "list_all (\<lambda>p. \<not> writesKey ''arg1'' (TrimSpace p)) ps \<Longrightarrow>
   fst (actionArgsLoop ps i m r) ''arg1'' =
     (if i = 0 \<and> ps \<noteq> [] \<and> isPositional (TrimSpace (hd ps)) then Some (TrimSpace (hd ps))
      else m ''arg1'')"
proof (induction ps arbitrary: i m r)
  case Nil
  then show ?case by simp
next
  case (Cons p ps)
  then have IH: "\<And>i m r. fst (actionArgsLoop ps i m r) ''arg1'' =
     (if i = 0 \<and> ps \<noteq> [] \<and> isPositional (TrimSpace (hd ps)) then Some (TrimSpace (hd ps))
      else m ''arg1'')"
    and nw: "\<not> writesKey ''arg1'' (TrimSpace p)"
    by simp_all
  show ?case
    using nw by (auto simp: IH Let_def isPositional_def writesKey_def isNamed_def namedKey_def)
qed

lemma actionArgsLoop_arg2:
  "list_all (\<lambda>p. \<not> writesKey ''arg2'' (TrimSpace p)) ps \<Longrightarrow>
   fst (actionArgsLoop ps i m r) ''arg2'' =
     (if i \<le> 1 \<and> 1 - i < length ps \<and> isPositional (TrimSpace (ps ! (1 - i)))
      then Some (TrimSpace (ps ! (1 - i)))
      else m ''arg2'')"
proof (induction ps arbitrary: i m r)
  case Nil
  then show ?case by simp
next
  case (Cons p ps)
  then have IH: "\<And>i m r. fst (actionArgsLoop ps i m r) ''arg2'' =
     (if i \<le> 1 \<and> 1 - i < length ps \<and> isPositional (TrimSpace (ps ! (1 - i)))
      then Some (TrimSpace (ps ! (1 - i)))
      else m ''arg2'')"
    and nw: "\<not> writesKey ''arg2'' (TrimSpace p)"
    by simp_all
  consider "i = 0" | "i = 1" | "2 \<le> i" by linarith
  then show ?case
  proof cases
    case 1
    with nw show ?thesis
      by (auto simp: IH Let_def isPositional_def writesKey_def isNamed_def namedKey_def)
  next
    case 2
    with nw show ?thesis
      by (auto simp: IH Let_def isPositional_def writesKey_def isNamed_def namedKey_def)
  next
    case 3
    with nw show ?thesis
      by (auto simp: IH Let_def isPositional_def writesKey_def isNamed_def namedKey_def)
  qed
qed

lemma actionArgsLoop_entries:
  "fst (actionArgsLoop ps i m r) k = Some v \<Longrightarrow>
     m k = Some v
     \<or> (k = ''arg1'' \<and> i = 0 \<and> ps \<noteq> [] \<and> v = TrimSpace (hd ps) \<and> isPositional v)
     \<or> (k = ''arg2'' \<and> i \<le> 1 \<and> 1 - i < length ps \<and> v = TrimSpace (ps ! (1 - i)) \<and> isPositional v)
     \<or> (\<exists>p \<in> set ps. writesKey k (TrimSpace p) \<and> v = namedValue (TrimSpace p))"
proof (induction ps arbitrary: i m r)
  case Nil
  then show ?case by simp
next
  case (Cons p ps)
  let ?part = "TrimSpace p"
  let ?named = "\<exists>q \<in> set (p # ps). writesKey k (TrimSpace q) \<and> v = namedValue (TrimSpace q)"
  consider (req) "HasPrefix ?part '':''"
    | (kv) "\<not> HasPrefix ?part '':''" "Contains ?part ''=''" "length (Split ?part ''='') = 2"
    | (bad) "\<not> HasPrefix ?part '':''" "Contains ?part ''=''" "length (Split ?part ''='') \<noteq> 2"
    | (pos) "\<not> HasPrefix ?part '':''" "\<not> Contains ?part ''=''"
    by blast
  then show ?case
  proof cases
    case req
    with Cons.prems have "fst (actionArgsLoop ps (i + 1) m (r @ [TrimPrefix ?part '':''])) k = Some v"
      by (simp add: Let_def)
    from Cons.IH[OF this] show ?thesis by auto
  next
    case kv
    let ?m = "m(TrimSpace (Split ?part ''='' ! 0) \<mapsto> TrimSpace (Split ?part ''='' ! 1))"
    from kv Cons.prems have "fst (actionArgsLoop ps (i + 1) ?m r) k = Some v"
      by (simp add: Let_def)
    from Cons.IH[OF this] have
      "?m k = Some v
       \<or> (k = ''arg2'' \<and> i = 0 \<and> 1 < length (p # ps) \<and> v = TrimSpace ((p # ps) ! 1)
            \<and> isPositional v)
       \<or> (\<exists>q \<in> set ps. writesKey k (TrimSpace q) \<and> v = namedValue (TrimSpace q))"
      by auto
    moreover have "m k = Some v \<or> (writesKey k ?part \<and> v = namedValue ?part)" if "?m k = Some v"
      using that kv by (auto simp: writesKey_def isNamed_def namedKey_def namedValue_def split: if_splits)
    ultimately show ?thesis by auto
  next
    case bad
    with Cons.prems have "fst (actionArgsLoop ps (i + 1) m r) k = Some v"
      by (simp add: Let_def)
    from Cons.IH[OF this] show ?thesis by auto
  next
    case pos
    then have ip: "isPositional ?part" by (simp add: isPositional_def)
    consider "i = 0" | "i = 1" | "2 \<le> i" by linarith
    then show ?thesis
    proof cases
      case 1
      with pos Cons.prems have "fst (actionArgsLoop ps (i + 1) (m(''arg1'' \<mapsto> ?part)) r) k = Some v"
        by (simp add: Let_def)
      from Cons.IH[OF this] 1 ip show ?thesis by (auto split: if_splits)
    next
      case 2
      with pos Cons.prems have "fst (actionArgsLoop ps (i + 1) (m(''arg2'' \<mapsto> ?part)) r) k = Some v"
        by (simp add: Let_def)
      from Cons.IH[OF this] 2 ip show ?thesis by (auto split: if_splits)
    next
      case 3
      with pos Cons.prems have "fst (actionArgsLoop ps (i + 1) m r) k = Some v"
        by (simp add: Let_def)
      from Cons.IH[OF this] 3 show ?thesis by auto
    qed
  qed
qed

lemma parseActionArgs_entries:
  "fst (parseActionArgs args) k = Some v \<Longrightarrow>
     (k = ''arg1'' \<and> 0 < length (tokens args) \<and> v = tokens args ! 0 \<and> isPositional v)
     \<or> (k = ''arg2'' \<and> 1 < length (tokens args) \<and> v = tokens args ! 1 \<and> isPositional v)
     \<or> (\<exists>part \<in> set (tokens args). writesKey k part \<and> v = namedValue part)"
proof -
  assume "fst (parseActionArgs args) k = Some v"
  then have "fst (actionArgsLoop (Fields_strings args) 0 Map.empty []) k = Some v"
    by (simp add: parseActionArgs_def)
  from actionArgsLoop_entries[OF this] show ?thesis
    by (cases "Fields_strings args") (auto simp: tokens_def)
qed

section \<open>The arguments of an action\<close>

text \<open>
  Claim C3, as amended. The slot of a positional token goes by its index among all the
  tokens of the argument text: when no token \<open>key=value\<close> has the key \<open>arg1\<close> or \<open>arg2\<close>,
  the value under \<open>arg1\<close> is the first token if that is positional and nothing otherwise,
  the value under \<open>arg2\<close> is the second token if that is positional and nothing
  otherwise, and the required parameters are the tokens with a leading colon, without
  it, in order. Whatever the keys are, every entry of the map is the first token under
  \<open>arg1\<close>, the second token under \<open>arg2\<close>, or the value of a token \<open>key=value\<close> under
  its key: a positional token behind two tokens of any kind is stored nowhere.
\<close>

theorem positional_arguments_go_by_token_index:
  assumes "list_all (\<lambda>part. \<not> writesKey ''arg1'' part \<and> \<not> writesKey ''arg2'' part) (tokens args)"
  shows "fst (parseActionArgs args) ''arg1'' =
           (if 0 < length (tokens args) \<and> isPositional (tokens args ! 0)
            then Some (tokens args ! 0) else None)
       \<and> fst (parseActionArgs args) ''arg2'' =
           (if 1 < length (tokens args) \<and> isPositional (tokens args ! 1)
            then Some (tokens args ! 1) else None)
       \<and> snd (parseActionArgs args) =
           map (\<lambda>part. TrimPrefix part '':'') (filter isRequired (tokens args))
       \<and> (\<forall>k v. fst (parseActionArgs args) k = Some v \<longrightarrow>
             (k = ''arg1'' \<and> 0 < length (tokens args) \<and> v = tokens args ! 0 \<and> isPositional v)
             \<or> (k = ''arg2'' \<and> 1 < length (tokens args) \<and> v = tokens args ! 1
                  \<and> isPositional v)
             \<or> (\<exists>part \<in> set (tokens args). writesKey k part \<and> v = namedValue part))"
proof -
  let ?ps = "Fields_strings args"
  from assms have a1: "list_all (\<lambda>p. \<not> writesKey ''arg1'' (TrimSpace p)) ?ps"
    and a2: "list_all (\<lambda>p. \<not> writesKey ''arg2'' (TrimSpace p)) ?ps"
    by (simp_all add: tokens_def list_all_iff)
  have "fst (parseActionArgs args) ''arg1'' =
           (if 0 < length (tokens args) \<and> isPositional (tokens args ! 0)
            then Some (tokens args ! 0) else None)"
    using actionArgsLoop_arg1[OF a1, of 0 Map.empty "[]"]
    by (cases ?ps) (simp_all add: parseActionArgs_def tokens_def)
  moreover have "fst (parseActionArgs args) ''arg2'' =
           (if 1 < length (tokens args) \<and> isPositional (tokens args ! 1)
            then Some (tokens args ! 1) else None)"
    using actionArgsLoop_arg2[OF a2, of 0 Map.empty "[]"]
    by (simp add: parseActionArgs_def tokens_def)
  moreover have "snd (parseActionArgs args) =
           map (\<lambda>part. TrimPrefix part '':'') (filter isRequired (tokens args))"
    by (simp add: parseActionArgs_def tokens_def actionArgsLoop_required)
  ultimately show ?thesis using parseActionArgs_entries[of args] by blast
qed

lemma Fields_key_attachments: "Fields_strings '':key attachments'' = ['':key'', ''attachments'']"
  by (simp add: Fields_strings_def asciiSpace_def unicodeSpaces_def HasPrefix_def)

lemma TrimSpace_key_attachments:
  "TrimSpace '':key'' = '':key''" "TrimSpace ''attachments'' = ''attachments''"
  by (simp_all add: str_defs)

theorem first_positional_token_after_required_counterexample:
  "Fields_strings '':key attachments'' = ['':key'', ''attachments'']
   \<and> isPositional ''attachments'' \<and> \<not> isPositional '':key''
   \<and> fst (parseActionArgs '':key attachments'') ''arg1'' = None
   \<and> fst (parseActionArgs '':key attachments'') ''arg2'' = Some ''attachments''"
  by (simp add: parseActionArgs_def Fields_key_attachments TrimSpace_key_attachments
        isPositional_def HasPrefix_def Contains_def Index_def)

theorem positional_arguments_go_by_token_index_witness:
  "fst (parseActionArgs '':key attachments'') ''arg1'' = None
   \<and> fst (parseActionArgs '':key attachments'') ''arg2'' = Some ''attachments''
   \<and> snd (parseActionArgs '':key attachments'') = [''key'']"
proof -
  have t: "tokens '':key attachments'' = ['':key'', ''attachments'']"
    by (simp add: tokens_def Fields_key_attachments TrimSpace_key_attachments)
  have h: "list_all (\<lambda>part. \<not> writesKey ''arg1'' part \<and> \<not> writesKey ''arg2'' part)
             (tokens '':key attachments'')"
    by (simp add: t writesKey_def isNamed_def HasPrefix_def Contains_def Index_def)
  show ?thesis
    using positional_arguments_go_by_token_index [OF h]
    by (simp add: t isPositional_def isRequired_def HasPrefix_def Contains_def Index_def
          TrimPrefix_def)
qed

section \<open>The arguments of a function\<close>

lemma takeWhile_eq_replicate:
  "takeWhile (\<lambda>c. c = q) xs = replicate (length (takeWhile (\<lambda>c. c = q) xs)) q"
  by (induction xs) simp_all

lemma dropWhile_eq_split:
  "xs = replicate (length (takeWhile (\<lambda>c. c = q) xs)) q @ dropWhile (\<lambda>c. c = q) xs"
proof -
  have "xs = takeWhile (\<lambda>c. c = q) xs @ dropWhile (\<lambda>c. c = q) xs" by simp
  then show ?thesis using takeWhile_eq_replicate[of q xs] by simp
qed

lemma Trim_single:
  "Trim part [q] = dropWhile (\<lambda>c. c = q) (rev (dropWhile (\<lambda>c. c = q) (rev part)))"
  by (simp add: Trim_def)

lemma Trim_decomposition:
  "\<exists>m n. part = replicate m q @ Trim part [q] @ replicate n q"
proof -
  let ?zs = "dropWhile (\<lambda>c. c = q) (rev part)"
  let ?n = "length (takeWhile (\<lambda>c. c = q) (rev part))"
  let ?m = "length (takeWhile (\<lambda>c. c = q) (rev ?zs))"
  have "rev part = replicate ?n q @ ?zs" by (rule dropWhile_eq_split)
  then have "rev (rev part) = rev (replicate ?n q @ ?zs)" by (rule arg_cong)
  then have p: "part = rev ?zs @ replicate ?n q" by simp
  have "rev ?zs = replicate ?m q @ dropWhile (\<lambda>c. c = q) (rev ?zs)" by (rule dropWhile_eq_split)
  then have t: "rev ?zs = replicate ?m q @ Trim part [q]" by (simp only: Trim_single)
  have "part = (replicate ?m q @ Trim part [q]) @ replicate ?n q"
    by (rule trans[OF p]) (simp only: t[symmetric])
  then have "part = replicate ?m q @ Trim part [q] @ replicate ?n q" by (simp only: append_assoc)
  then show ?thesis by blast
qed

lemma HasPrefix_single: "HasPrefix s [q] \<longleftrightarrow> s \<noteq> [] \<and> hd s = q"
  by (cases s) (simp_all add: HasPrefix_def)

lemma HasSuffix_single: "HasSuffix s [q] \<longleftrightarrow> s \<noteq> [] \<and> last s = q"
proof (cases "s = []")
  case True
  then show ?thesis by (simp add: HasSuffix_def)
next
  case False
  then have "s = butlast s @ [last s]" by simp
  then obtain ys y where s: "s = ys @ [y]" by blast
  show ?thesis by (simp add: s HasSuffix_def)
qed

lemma Trim_no_prefix: "\<not> HasPrefix (Trim part [q]) [q]"
proof -
  let ?ys = "rev (dropWhile (\<lambda>c. c = q) (rev part))"
  have "hd (dropWhile (\<lambda>c. c = q) ?ys) \<noteq> q" if "dropWhile (\<lambda>c. c = q) ?ys \<noteq> []"
    using hd_dropWhile[OF that] by simp
  then show ?thesis
    unfolding HasPrefix_single Trim_single by blast
qed

lemma last_dropWhile: "dropWhile P xs \<noteq> [] \<Longrightarrow> last (dropWhile P xs) = last xs"
  by (induction xs) (auto split: if_splits)

lemma Trim_no_suffix: "\<not> HasSuffix (Trim part [q]) [q]"
proof -
  let ?zs = "dropWhile (\<lambda>c. c = q) (rev part)"
  have "last (dropWhile (\<lambda>c. c = q) (rev ?zs)) \<noteq> q" if ne: "dropWhile (\<lambda>c. c = q) (rev ?zs) \<noteq> []"
  proof -
    have z: "?zs \<noteq> []"
    proof
      assume e: "?zs = []"
      have "dropWhile (\<lambda>c. c = q) (rev ?zs) = []"
        by (simp only: e rev.simps dropWhile.simps)
      with ne show False by contradiction
    qed
    have "last (dropWhile (\<lambda>c. c = q) (rev ?zs)) = last (rev ?zs)"
      using ne by (rule last_dropWhile)
    also have "\<dots> = hd ?zs" using z by (simp add: last_rev)
    finally show ?thesis using hd_dropWhile[OF z] by simp
  qed
  then show ?thesis
    unfolding HasSuffix_single Trim_single by blast
qed

lemma unquote_cases:
  "unquote p =
     (if HasPrefix (TrimSpace p) quote \<and> HasSuffix (TrimSpace p) quote
      then Trim (TrimSpace p) quote else TrimSpace p)"
  by (simp add: unquote_def Let_def)

text \<open>
  Claim C4, as amended. \<open>parseFunctionArgs\<close> returns one string for each token of the
  argument text, in order. For a token that begins and ends with a double quote it is the
  token without all of its leading and all of its trailing double quotes, however many
  layers there are: the token is some quotes, the result, and some quotes, and the result
  neither begins nor ends with a quote. Every other token is returned as it is. The
  quoted token \<open>short\<close> gives \<open>short\<close>.
\<close>

theorem parseFunctionArgs_strips_all_outer_quotes:
  "length (parseFunctionArgs args) = length (Fields_strings args)
   \<and> (\<forall>i < length (Fields_strings args).
        (HasPrefix (tokens args ! i) quote \<and> HasSuffix (tokens args ! i) quote
           \<longrightarrow> (\<exists>m n. tokens args ! i =
                    replicate m (CHR 0x22) @ parseFunctionArgs args ! i @ replicate n (CHR 0x22))
               \<and> \<not> HasPrefix (parseFunctionArgs args ! i) quote
               \<and> \<not> HasSuffix (parseFunctionArgs args ! i) quote)
        \<and> (\<not> (HasPrefix (tokens args ! i) quote \<and> HasSuffix (tokens args ! i) quote)
           \<longrightarrow> parseFunctionArgs args ! i = tokens args ! i))
   \<and> parseFunctionArgs (quote @ ''short'' @ quote) = [''short'']"
proof -
  have len: "length (parseFunctionArgs args) = length (Fields_strings args)"
    by (simp add: parseFunctionArgs_def)
  have each: "(HasPrefix (tokens args ! i) quote \<and> HasSuffix (tokens args ! i) quote
           \<longrightarrow> (\<exists>m n. tokens args ! i =
                    replicate m (CHR 0x22) @ parseFunctionArgs args ! i @ replicate n (CHR 0x22))
               \<and> \<not> HasPrefix (parseFunctionArgs args ! i) quote
               \<and> \<not> HasSuffix (parseFunctionArgs args ! i) quote)
        \<and> (\<not> (HasPrefix (tokens args ! i) quote \<and> HasSuffix (tokens args ! i) quote)
           \<longrightarrow> parseFunctionArgs args ! i = tokens args ! i)"
    if i: "i < length (Fields_strings args)" for i
  proof -
  let ?t = "tokens args ! i"
  let ?o = "parseFunctionArgs args ! i"
  from i have t: "?t = TrimSpace (Fields_strings args ! i)"
    by (simp add: tokens_def)
  from i have "?o = unquote (Fields_strings args ! i)"
    by (simp add: parseFunctionArgs_def)
  then have o: "?o = (if HasPrefix ?t quote \<and> HasSuffix ?t quote then Trim ?t quote else ?t)"
    by (simp only: unquote_cases t)
  show ?thesis
  proof (cases "HasPrefix ?t quote \<and> HasSuffix ?t quote")
    case True
    with o have "?o = Trim ?t [CHR 0x22]"
      by (simp add: quote_def)
    with True show ?thesis
      using Trim_decomposition[of ?t "CHR 0x22"] Trim_no_prefix[of ?t "CHR 0x22"]
            Trim_no_suffix[of ?t "CHR 0x22"]
      by (simp add: quote_def)
  next
    case False
    with o have "?o = ?t" by auto
    with False show ?thesis by blast
  qed
  qed
  let ?s = "[CHR 0x22, CHR ''s'', CHR ''h'', CHR ''o'', CHR ''r'', CHR ''t'', CHR 0x22]"
  have f: "Fields_strings ?s = [?s]"
    by (simp add: Fields_strings_def asciiSpace_def unicodeSpaces_def HasPrefix_def)
  have t: "TrimSpace ?s = ?s"
    by (simp add: str_defs)
  have short: "parseFunctionArgs (quote @ ''short'' @ quote) = [''short'']"
    by (simp add: quote_def parseFunctionArgs_def f unquote_cases t HasPrefix_def HasSuffix_def
          Trim_def)
  from len each short show ?thesis by blast
qed

lemma Fields_doubled:
  "Fields_strings [CHR 0x22, CHR 0x22, CHR ''a'', CHR 0x22, CHR 0x22] =
     [[CHR 0x22, CHR 0x22, CHR ''a'', CHR 0x22, CHR 0x22]]"
  by (simp add: Fields_strings_def asciiSpace_def unicodeSpaces_def HasPrefix_def)

lemma TrimSpace_doubled:
  "TrimSpace [CHR 0x22, CHR 0x22, CHR ''a'', CHR 0x22, CHR 0x22] =
     [CHR 0x22, CHR 0x22, CHR ''a'', CHR 0x22, CHR 0x22]"
  by (simp add: str_defs)

theorem doubled_quotes_lose_both_layers_counterexample:
  "parseFunctionArgs [CHR 0x22, CHR 0x22, CHR ''a'', CHR 0x22, CHR 0x22] = [''a'']
   \<and> stripOneLayer [CHR 0x22, CHR 0x22, CHR ''a'', CHR 0x22, CHR 0x22]
       = [CHR 0x22, CHR ''a'', CHR 0x22]
   \<and> parseFunctionArgs [CHR 0x22, CHR 0x22, CHR ''a'', CHR 0x22, CHR 0x22]
       \<noteq> [stripOneLayer [CHR 0x22, CHR 0x22, CHR ''a'', CHR 0x22, CHR 0x22]]"
  by (simp add: parseFunctionArgs_def Fields_doubled unquote_cases TrimSpace_doubled
        quote_def HasPrefix_def HasSuffix_def Trim_def stripOneLayer_def)

theorem parseFunctionArgs_strips_all_outer_quotes_witness:
  "(\<exists>m n. [CHR 0x22, CHR 0x22, CHR ''a'', CHR 0x22, CHR 0x22] =
       replicate m (CHR 0x22)
       @ parseFunctionArgs [CHR 0x22, CHR 0x22, CHR ''a'', CHR 0x22, CHR 0x22] ! 0
       @ replicate n (CHR 0x22))
   \<and> \<not> HasPrefix (parseFunctionArgs [CHR 0x22, CHR 0x22, CHR ''a'', CHR 0x22, CHR 0x22] ! 0) quote
   \<and> \<not> HasSuffix (parseFunctionArgs [CHR 0x22, CHR 0x22, CHR ''a'', CHR 0x22, CHR 0x22] ! 0) quote"
proof -
  let ?a = "[CHR 0x22, CHR 0x22, CHR ''a'', CHR 0x22, CHR 0x22]"
  have t: "tokens ?a ! 0 = ?a"
    by (simp add: tokens_def Fields_doubled TrimSpace_doubled)
  have i: "0 < length (Fields_strings ?a)"
    by (simp add: Fields_doubled)
  have q: "HasPrefix (tokens ?a ! 0) quote \<and> HasSuffix (tokens ?a ! 0) quote"
    unfolding t by (simp add: quote_def HasPrefix_def HasSuffix_def)
  from parseFunctionArgs_strips_all_outer_quotes [of ?a] i q
  have "(\<exists>m n. tokens ?a ! 0 =
                    replicate m (CHR 0x22) @ parseFunctionArgs ?a ! 0 @ replicate n (CHR 0x22))
               \<and> \<not> HasPrefix (parseFunctionArgs ?a ! 0) quote
               \<and> \<not> HasSuffix (parseFunctionArgs ?a ! 0) quote"
    by blast
  then show ?thesis unfolding t .
qed

end
